theory Spec2Isabelle
  imports Main "HOL-Library.Word"
begin

section \<open>Closures, task runners and the world they live in\<close>

text \<open>
  The source is the unit test of binding interfaces to task runners
  (\<^verbatim>\<open>src/unnamed/part_001\<close>). Its own code is the class \<^verbatim>\<open>TestTaskRunner\<close>
  (a queue of closures with a run loop), the class \<^verbatim>\<open>IntegerSenderImpl\<close> and the
  test bodies.

  A \<^verbatim>\<open>base::Closure\<close> is opaque in C++. What a closure can do to a task runner goes
  through the runner's public methods, so a closure is modelled by what it does when it
  is run: it reads and changes the state it has captured (the component \<open>ext\<close> of the
  world, of an arbitrary type \<open>'x\<close>) and it makes a sequence of calls on task runners.
  A task runner is an object shared by reference (\<^verbatim>\<open>scoped_refptr<TestTaskRunner>\<close>);
  the world holds every runner under its reference. A closure that itself calls
  \<^verbatim>\<open>Run()\<close> or \<^verbatim>\<open>RunOneTask()\<close> is not modelled; no closure of the source does.
\<close>

type_synonym thread = nat
type_synonym runner_ref = nat
type_synonym time_delta = int

datatype 'x task = Closure (closure_id: nat) (closure_body: "'x \<Rightarrow> 'x \<times> 'x call list")
and 'x call =
    CallPostDelayedTask runner_ref "'x task" time_delta
  | CallPostNonNestableDelayedTask runner_ref "'x task" time_delta
  | CallQuit runner_ref

text \<open>The fields of \<^verbatim>\<open>TestTaskRunner\<close>. \<open>task_ready\<close> is the state of the
  automatic-reset \<^verbatim>\<open>WaitableEvent\<close>: signalled or not. The lock only makes each
  access to \<open>tasks\<close> atomic and has no state of its own here.\<close>

record 'x runner =
  thread_id :: thread
  quit_called :: bool
  task_ready :: bool
  tasks :: "'x task list"

text \<open>The ghost component \<open>history\<close> records, in order, every run of a task: the
  runner it was popped from, the task, and the calls it made in that run. The program
  does not read it.\<close>

record 'x world =
  runners :: "runner_ref \<Rightarrow> 'x runner"
  ext :: 'x
  history :: "(runner_ref \<times> 'x task \<times> 'x call list) list"

datatype fatal = NotReached | DCheckFailed | CallOnClosedEndpoint

text \<open>The third value of \<open>fatal\<close> is not raised by the code of the source; it is the
  programming error of the endpoint layer below.\<close>

text \<open>Modelled from the spec: the macros \<^verbatim>\<open>NOTREACHED\<close> and \<^verbatim>\<open>DCHECK\<close> of
  \<^verbatim>\<open>base/logging.h\<close> are not among the sources. The spec calls them runtime aborts
  (programming errors are fatal and terminate instead of returning an error value).\<close>

definition NOTREACHED :: "fatal + unit" where
  "NOTREACHED = Inl NotReached"

definition DCHECK :: "bool \<Rightarrow> fatal + unit" where
  "DCHECK c = (if c then Inr () else Inl DCheckFailed)"

definition upd_runner :: "runner_ref \<Rightarrow> ('x runner \<Rightarrow> 'x runner) \<Rightarrow> 'x world \<Rightarrow> 'x world" where
  "upd_runner r f w = w\<lparr>runners := (runners w)(r := f (runners w r))\<rparr>"

text \<open>The constructor: the creating thread owns the runner, the flag is clear, the
  event is not signalled, the queue is empty.\<close>

definition TestTaskRunner :: "thread \<Rightarrow> 'x runner" where
  "TestTaskRunner cur = \<lparr>thread_id = cur, quit_called = False, task_ready = False, tasks = []\<rparr>"

definition PostNonNestableDelayedTask ::
    "runner_ref \<Rightarrow> 'x task \<Rightarrow> time_delta \<Rightarrow> 'x world \<Rightarrow> fatal + ('x world \<times> bool)" where
  "PostNonNestableDelayedTask r task delay w =
     (case NOTREACHED of Inl e \<Rightarrow> Inl e | Inr _ \<Rightarrow> Inr (w, False))"

definition PostDelayedTask ::
    "runner_ref \<Rightarrow> 'x task \<Rightarrow> time_delta \<Rightarrow> 'x world \<Rightarrow> 'x world \<times> bool" where
  "PostDelayedTask r task delay w =
     (upd_runner r (\<lambda>q. q\<lparr>task_ready := True\<rparr>)
        (upd_runner r (\<lambda>q. q\<lparr>tasks := tasks q @ [task]\<rparr>) w),
      True)"

definition RunsTasksOnCurrentThread :: "thread \<Rightarrow> runner_ref \<Rightarrow> 'x world \<Rightarrow> bool" where
  "RunsTasksOnCurrentThread cur r w = (cur = thread_id (runners w r))"

definition Quit :: "thread \<Rightarrow> runner_ref \<Rightarrow> 'x world \<Rightarrow> fatal + 'x world" where
  "Quit cur r w =
     (case DCHECK (RunsTasksOnCurrentThread cur r w) of
        Inl e \<Rightarrow> Inl e
      | Inr _ \<Rightarrow> Inr (upd_runner r (\<lambda>q. q\<lparr>quit_called := True\<rparr>) w))"

text \<open>\<^verbatim>\<open>task_ready_.Wait()\<close>, seen from the one thread of this sequential model: a
  signalled event is reset and the call returns; on an event that is not signalled the
  call never returns, since no other thread is there to signal it.\<close>

definition Wait :: "runner_ref \<Rightarrow> 'x world \<Rightarrow> 'x world option" where
  "Wait r w =
     (if task_ready (runners w r)
      then Some (upd_runner r (\<lambda>q. q\<lparr>task_ready := False\<rparr>) w)
      else None)"

subsection \<open>Running one closure\<close>

fun do_call :: "thread \<Rightarrow> 'x call \<Rightarrow> 'x world \<Rightarrow> fatal + 'x world" where
  "do_call cur (CallPostDelayedTask r t d) w = Inr (fst (PostDelayedTask r t d w))"
| "do_call cur (CallPostNonNestableDelayedTask r t d) w =
     (case PostNonNestableDelayedTask r t d w of Inl e \<Rightarrow> Inl e | Inr p \<Rightarrow> Inr (fst p))"
| "do_call cur (CallQuit r) w = Quit cur r w"

fun do_calls :: "thread \<Rightarrow> 'x call list \<Rightarrow> 'x world \<Rightarrow> fatal + 'x world" where
  "do_calls cur [] w = Inr w"
| "do_calls cur (c # cs) w =
     (case do_call cur c w of Inl e \<Rightarrow> Inl e | Inr w' \<Rightarrow> do_calls cur cs w')"

text \<open>\<^verbatim>\<open>task.Run()\<close> on thread \<open>cur\<close>, for a task popped from runner \<open>r\<close>.\<close>

definition run_task :: "thread \<Rightarrow> runner_ref \<Rightarrow> 'x task \<Rightarrow> 'x world \<Rightarrow> fatal + 'x world" where
  "run_task cur r t w =
     (case closure_body t (ext w) of
        (x', cs) \<Rightarrow> do_calls cur cs (w\<lparr>ext := x', history := history w @ [(r, t, cs)]\<rparr>))"

text \<open>The tasks that a sequence of calls appends to the queue of runner \<open>r\<close>.\<close>

fun posted_to :: "runner_ref \<Rightarrow> 'x call list \<Rightarrow> 'x task list" where
  "posted_to r [] = []"
| "posted_to r (CallPostDelayedTask r' t d # cs) =
     (if r' = r then t # posted_to r cs else posted_to r cs)"
| "posted_to r (c # cs) = posted_to r cs"

text \<open>A call that does not abort when thread \<open>cur\<close> makes it in world \<open>w\<close>.\<close>

fun call_ok :: "thread \<Rightarrow> 'x world \<Rightarrow> 'x call \<Rightarrow> bool" where
  "call_ok cur w (CallPostDelayedTask r t d) = True"
| "call_ok cur w (CallPostNonNestableDelayedTask r t d) = False"
| "call_ok cur w (CallQuit r) = (cur = thread_id (runners w r))"

text \<open>The runners of a list are owned by thread \<open>cur\<close> and have nothing queued.\<close>

definition quiet_on :: "runner_ref list \<Rightarrow> thread \<Rightarrow> 'x world \<Rightarrow> bool" where
  "quiet_on rs cur w =
     list_all (\<lambda>r. tasks (runners w r) = [] \<and> thread_id (runners w r) = cur) rs"

subsection \<open>The run loops\<close>

text \<open>\<^verbatim>\<open>Run()\<close> after its first two statements. One unfolding is one test of
  \<^verbatim>\<open>tasks_.empty()\<close> under the lock: on an empty queue the inner loop is left, the
  lock released and the thread waits; otherwise the front task is popped and run with
  the lock released, and the flag is read. \<open>None\<close> is a call that never returns.\<close>

partial_function (option) Run_loop ::
    "thread \<Rightarrow> runner_ref \<Rightarrow> 'x world \<Rightarrow> (fatal + 'x world) option" where
  "Run_loop cur r w =
     (case tasks (runners w r) of
        [] \<Rightarrow> (case Wait r w of None \<Rightarrow> None | Some w' \<Rightarrow> Run_loop cur r w')
      | task # rest \<Rightarrow>
          (case run_task cur r task (upd_runner r (\<lambda>q. q\<lparr>tasks := rest\<rparr>) w) of
             Inl e \<Rightarrow> Some (Inl e)
           | Inr w' \<Rightarrow> if quit_called (runners w' r) then Some (Inr w') else Run_loop cur r w'))"

definition Run :: "thread \<Rightarrow> runner_ref \<Rightarrow> 'x world \<Rightarrow> (fatal + 'x world) option" where
  "Run cur r w =
     (case DCHECK (RunsTasksOnCurrentThread cur r w) of
        Inl e \<Rightarrow> Some (Inl e)
      | Inr _ \<Rightarrow> Run_loop cur r (upd_runner r (\<lambda>q. q\<lparr>quit_called := False\<rparr>) w))"

partial_function (option) RunOneTask_loop ::
    "thread \<Rightarrow> runner_ref \<Rightarrow> 'x world \<Rightarrow> (fatal + 'x world) option" where
  "RunOneTask_loop cur r w =
     (case tasks (runners w r) of
        [] \<Rightarrow> (case Wait r w of None \<Rightarrow> None | Some w' \<Rightarrow> RunOneTask_loop cur r w')
      | task # rest \<Rightarrow>
          Some (run_task cur r task (upd_runner r (\<lambda>q. q\<lparr>tasks := rest\<rparr>) w)))"

definition RunOneTask :: "thread \<Rightarrow> runner_ref \<Rightarrow> 'x world \<Rightarrow> (fatal + 'x world) option" where
  "RunOneTask cur r w =
     (case DCHECK (RunsTasksOnCurrentThread cur r w) of
        Inl e \<Rightarrow> Some (Inl e)
      | Inr _ \<Rightarrow> RunOneTask_loop cur r w)"

subsection \<open>\<^verbatim>\<open>IntegerSenderImpl\<close>\<close>

text \<open>A \<^verbatim>\<open>Callback\<close> with arguments is a closure body that depends on them. A null
  \<^verbatim>\<open>EchoHandler\<close> is \<open>None\<close>; a freshly constructed \<^verbatim>\<open>IntegerSenderImpl\<close> has a null
  handler.\<close>

type_synonym int32 = "32 word"
type_synonym 'x effect = "'x \<Rightarrow> 'x \<times> 'x call list"
type_synonym 'x EchoCallback = "int32 \<Rightarrow> 'x effect"
type_synonym 'x EchoHandler = "(int32 \<Rightarrow> 'x EchoCallback \<Rightarrow> 'x effect) option"

record 'x IntegerSenderImpl =
  echo_handler :: "'x EchoHandler"

definition IntegerSenderImpl :: "'x IntegerSenderImpl" where
  "IntegerSenderImpl = \<lparr>echo_handler = None\<rparr>"

definition set_echo_handler :: "'x EchoHandler \<Rightarrow> 'x IntegerSenderImpl \<Rightarrow> 'x IntegerSenderImpl" where
  "set_echo_handler handler impl = impl\<lparr>echo_handler := handler\<rparr>"

definition Echo :: "'x IntegerSenderImpl \<Rightarrow> int32 \<Rightarrow> 'x EchoCallback \<Rightarrow> 'x effect" where
  "Echo impl v callback =
     (case echo_handler impl of
        None \<Rightarrow> callback v
      | Some h \<Rightarrow> h v callback)"

text \<open>Two test doubles over a captured list of integers: a callback that appends the
  value it is run with, and a handler that drops its callback.\<close>

definition recording_callback :: "(int32 list) EchoCallback" where
  "recording_callback v = (\<lambda>seen. (seen @ [v], []))"

definition dropping_handler :: "int32 \<Rightarrow> (int32 list) EchoCallback \<Rightarrow> (int32 list) effect" where
  "dropping_handler v callback = (\<lambda>seen. (seen, []))"

subsection \<open>Concrete worlds for the examples\<close>

text \<open>A world in which every runner was constructed on thread 0.\<close>

definition fresh_world :: "'x \<Rightarrow> 'x world" where
  "fresh_world x = \<lparr>runners = (\<lambda>_. TestTaskRunner 0), ext = x, history = []\<rparr>"

text \<open>Closures over a captured list of marks: one appends a mark, one appends a mark
  and calls \<^verbatim>\<open>Quit()\<close> on a runner.\<close>

definition marking :: "nat \<Rightarrow> (nat list) task" where
  "marking n = Closure n (\<lambda>ms. (ms @ [n], []))"

definition quitting :: "nat \<Rightarrow> runner_ref \<Rightarrow> (nat list) task" where
  "quitting n r = Closure n (\<lambda>ms. (ms @ [n], [CallQuit r]))"

text \<open>Runner 0 of a fresh world after two and after three tasks were posted, and the
  world in which \<^verbatim>\<open>Run()\<close> leaves the first of them.\<close>

definition two_posted :: "(nat list) world" where
  "two_posted =
     fst (PostDelayedTask 0 (marking 2) 0 (fst (PostDelayedTask 0 (quitting 1 0) 0 (fresh_world []))))"

definition three_posted :: "(nat list) world" where
  "three_posted =
     fst (PostDelayedTask 0 (marking 3) 0
       (fst (PostDelayedTask 0 (marking 2) 0 (fst (PostDelayedTask 0 (marking 1) 0 (fresh_world []))))))"

definition after_quitting :: "(nat list) world" where
  "after_quitting =
     \<lparr>runners = (\<lambda>_. TestTaskRunner 0)
        (0 := \<lparr>thread_id = 0, quit_called = True, task_ready = True, tasks = [marking 2]\<rparr>),
      ext = [1],
      history = [(0, quitting 1 0, [CallQuit 0])]\<rparr>"

text \<open>Runner 0 of a fresh world with three tasks posted, the second of which quits, and
  the world in which \<^verbatim>\<open>Run()\<close> leaves it.\<close>

definition quit_in_the_middle :: "(nat list) world" where
  "quit_in_the_middle =
     fst (PostDelayedTask 0 (marking 3) 0
       (fst (PostDelayedTask 0 (quitting 2 0) 0
         (fst (PostDelayedTask 0 (marking 1) 0 (fresh_world []))))))"

definition after_the_middle :: "(nat list) world" where
  "after_the_middle =
     \<lparr>runners = (\<lambda>_. TestTaskRunner 0)
        (0 := \<lparr>thread_id = 0, quit_called = True, task_ready = True, tasks = [marking 3]\<rparr>),
      ext = [1, 2],
      history = [(0, marking 1, []), (0, quitting 2 0, [CallQuit 0])]\<rparr>"

section \<open>One task runner among many threads\<close>

text \<open>
  The sequential functions above see one thread only. Here one \<^verbatim>\<open>TestTaskRunner\<close> is
  watched while its owner thread and any number of other threads act on it. Every
  access to \<open>tasks_\<close> is made under \<open>lock_\<close>, so it is one atomic event, and an
  execution is a sequence of events. Tasks are opaque values here: what a running task
  does to this runner shows up as events of the sequence (its pushes, its signals, its
  call of \<^verbatim>\<open>Quit()\<close>), interleaved with those of the other threads in any way.

  The owner thread is at one of these places: outside of both loops (\<open>Idle\<close>); in
  \<^verbatim>\<open>Run()\<close>, about to take the lock and test the queue (\<open>RunLocked\<close>), inside
  \<^verbatim>\<open>task.Run()\<close> with the lock released (\<open>RunTask\<close>), or in \<^verbatim>\<open>task_ready_.Wait()\<close>
  (\<open>RunWait\<close>); and the same three places of \<^verbatim>\<open>RunOneTask()\<close>.
\<close>

datatype pc = Idle | RunLocked | RunTask | RunWait | OneLocked | OneTask | OneWait

text \<open>The fields of the runner, the place of its owner, and two ghost lists: the tasks
  whose \<^verbatim>\<open>Run()\<close> the owner has started, and all tasks pushed, both in the order in
  which it happened.\<close>

record 'a shared =
  s_quit_called :: bool
  s_task_ready :: bool
  s_tasks :: "'a list"
  s_pc :: pc
  s_started :: "'a list"
  s_pushed :: "'a list"

text \<open>\<open>Push th task\<close>: thread \<open>th\<close>, any thread, executes the locked block of
  \<^verbatim>\<open>PostDelayedTask\<close>; \<open>Signal th\<close>: it executes \<^verbatim>\<open>task_ready_.Signal()\<close>.
  \<open>SetQuit\<close>: the owner calls \<^verbatim>\<open>Quit()\<close>, which it can do only where it runs the code
  of a caller or of a task. \<open>EnterRun\<close>, \<open>EnterRunOneTask\<close>: the owner, outside of the
  loops, calls the method and executes it up to the loop. \<open>Step\<close>: the owner, inside
  a loop, goes on to its next place.\<close>

datatype 'a event =
    Push thread 'a
  | Signal thread
  | SetQuit
  | EnterRun
  | EnterRunOneTask
  | Step

definition constructed :: "'a shared" where
  "constructed = \<lparr>s_quit_called = False, s_task_ready = False, s_tasks = [], s_pc = Idle,
                   s_started = [], s_pushed = []\<rparr>"

fun owner_step :: "'a shared \<Rightarrow> 'a shared" where
  "owner_step s =
     (case s_pc s of
        Idle \<Rightarrow> s
      | RunLocked \<Rightarrow>
          (case s_tasks s of
             [] \<Rightarrow> s\<lparr>s_pc := RunWait\<rparr>
           | task # rest \<Rightarrow>
               s\<lparr>s_tasks := rest, s_started := s_started s @ [task], s_pc := RunTask\<rparr>)
      | RunTask \<Rightarrow> (if s_quit_called s then s\<lparr>s_pc := Idle\<rparr> else s\<lparr>s_pc := RunLocked\<rparr>)
      | RunWait \<Rightarrow>
          (if s_task_ready s then s\<lparr>s_task_ready := False, s_pc := RunLocked\<rparr> else s)
      | OneLocked \<Rightarrow>
          (case s_tasks s of
             [] \<Rightarrow> s\<lparr>s_pc := OneWait\<rparr>
           | task # rest \<Rightarrow>
               s\<lparr>s_tasks := rest, s_started := s_started s @ [task], s_pc := OneTask\<rparr>)
      | OneTask \<Rightarrow> s\<lparr>s_pc := Idle\<rparr>
      | OneWait \<Rightarrow>
          (if s_task_ready s then s\<lparr>s_task_ready := False, s_pc := OneLocked\<rparr> else s))"

fun step :: "'a event \<Rightarrow> 'a shared \<Rightarrow> 'a shared" where
  "step (Push th task) s = s\<lparr>s_tasks := s_tasks s @ [task], s_pushed := s_pushed s @ [task]\<rparr>"
| "step (Signal th) s = s\<lparr>s_task_ready := True\<rparr>"
| "step SetQuit s =
     (if s_pc s \<in> {Idle, RunTask, OneTask} then s\<lparr>s_quit_called := True\<rparr> else s)"
| "step EnterRun s =
     (if s_pc s = Idle then s\<lparr>s_quit_called := False, s_pc := RunLocked\<rparr> else s)"
| "step EnterRunOneTask s = (if s_pc s = Idle then s\<lparr>s_pc := OneLocked\<rparr> else s)"
| "step Step s = owner_step s"

definition interleave :: "'a event list \<Rightarrow> 'a shared \<Rightarrow> 'a shared" where
  "interleave es s = fold step es s"

section \<open>Endpoints bound to task runners\<close>

text \<open>
  The tests of the source bind interface endpoints (\<^verbatim>\<open>Binding\<close>,
  \<^verbatim>\<open>AssociatedBinding\<close>, \<^verbatim>\<open>InterfacePtr\<close>, \<^verbatim>\<open>AssociatedInterfacePtr\<close>) to task
  runners. The bindings library (\<^verbatim>\<open>mojo/public/cpp/bindings\<close>) is not among the
  sources; this section models it from the spec (sections 3, 4.2, 4.3, 7 and 8). What
  the source has, and what is used as it is: the task runner, \<^verbatim>\<open>IntegerSenderImpl::Echo\<close>
  as the dispatch of an inbound call, and the test bodies, which fix the order in which
  the runners are drained.
\<close>

text \<open>Modelled from the spec: the endpoints of the missing library. A connection has two
  sides; each side has a master endpoint and the associated endpoints created under it;
  the two endpoints with the same name on the two sides are peers.\<close>

datatype side = PtrSide | ImplSide

fun other :: "side \<Rightarrow> side" where
  "other PtrSide = ImplSide"
| "other ImplSide = PtrSide"

datatype endpoint = Master side | Associated nat side

fun peer :: "endpoint \<Rightarrow> endpoint" where
  "peer (Master s) = Master (other s)"
| "peer (Associated i s) = Associated i (other s)"

fun master_of :: "endpoint \<Rightarrow> endpoint" where
  "master_of (Master s) = Master s"
| "master_of (Associated i s) = Master s"

fun side_of :: "endpoint \<Rightarrow> side" where
  "side_of (Master s) = s"
| "side_of (Associated i s) = s"

fun is_master :: "endpoint \<Rightarrow> bool" where
  "is_master (Master s) = True"
| "is_master (Associated i s) = False"

text \<open>Modelled from the spec: the state machine of an endpoint, which the missing
  library keeps: \<open>Open\<close>, then \<open>Closing\<close> from \<open>Close()\<close> until the connection-error
  task has run, then \<open>Closed\<close>.\<close>

datatype phase = Open | Closing | Closed

text \<open>Modelled from the spec: the callbacks that the missing library stores. What the
  closures of the tests leave behind is recorded: the flags \<^verbatim>\<open>echo_called\<close> and
  \<^verbatim>\<open>echo_replied\<close> with the value seen, and the error flag of an endpoint. A callback
  or an error handler registered with an endpoint is a list of reactions: it sets such
  flags and calls \<^verbatim>\<open>Quit()\<close> on runners.\<close>

datatype obs = EchoCalled int32 | EchoReplied int32 | ConnectionError endpoint

datatype reaction = Observe obs | QuitRunner runner_ref

text \<open>Modelled from the spec: the state of the missing library (spec section 3): for
  each endpoint its bound executor, its phase, its registered connection-error handler
  and its pending calls (call identifier and stored callback); the associated
  endpoints created on each side; and the flags set so far, in order.\<close>

record mojo =
  executor :: "endpoint \<Rightarrow> runner_ref"
  phase :: "endpoint \<Rightarrow> phase"
  error_handler :: "endpoint \<Rightarrow> reaction list option"
  pending :: "endpoint \<Rightarrow> (nat \<times> (int32 \<Rightarrow> reaction list)) list"
  next_id :: "endpoint \<Rightarrow> nat"
  children :: "side \<Rightarrow> nat list"
  observed :: "obs list"

fun observations :: "reaction list \<Rightarrow> obs list" where
  "observations [] = []"
| "observations (Observe ob # rs) = ob # observations rs"
| "observations (QuitRunner r # rs) = observations rs"

fun quits :: "reaction list \<Rightarrow> mojo call list" where
  "quits [] = []"
| "quits (Observe ob # rs) = quits rs"
| "quits (QuitRunner r # rs) = CallQuit r # quits rs"

definition react :: "reaction list \<Rightarrow> mojo effect" where
  "react rs m = (m\<lparr>observed := observed m @ observations rs\<rparr>, quits rs)"

text \<open>Code that is not a task (a test body) performing an effect on thread \<open>cur\<close>.\<close>

definition perform :: "thread \<Rightarrow> 'x effect \<Rightarrow> 'x world \<Rightarrow> fatal + 'x world" where
  "perform cur eff w = (case eff (ext w) of (x', cs) \<Rightarrow> do_calls cur cs (w\<lparr>ext := x'\<rparr>))"

subsection \<open>A call and its reply\<close>

text \<open>Modelled from the spec: the last task of a reply, missing with the library. On
  the executor of the calling endpoint it looks the pending call up, removes it and runs
  its callback with the value; with no pending call under the identifier (consumed, or
  dropped by a close) it does nothing.\<close>

definition reply_delivery :: "endpoint \<Rightarrow> nat \<Rightarrow> int32 \<Rightarrow> mojo task" where
  "reply_delivery e n v =
     Closure 4 (\<lambda>m. case map_of (pending m e) n of
                       None \<Rightarrow> (m, [])
                     | Some callback \<Rightarrow>
                         react (callback v)
                           (m\<lparr>pending := (pending m)(e := filter (\<lambda>p. fst p \<noteq> n) (pending m e))\<rparr>))"

text \<open>Modelled from the spec: the first task of a reply, missing with the library. It
  runs on the executor of the master of the calling side; for an associated endpoint it
  posts the delivery on that endpoint's executor, for the master itself it delivers.\<close>

definition reply_arrives :: "endpoint \<Rightarrow> nat \<Rightarrow> int32 \<Rightarrow> mojo task" where
  "reply_arrives e n v =
     Closure 3 (\<lambda>m. if phase m (master_of e) \<noteq> Open then (m, [])
                     else if is_master e then closure_body (reply_delivery e n v) m
                     else (m, [CallPostDelayedTask (executor m e) (reply_delivery e n v) 0]))"

text \<open>Modelled from the spec: the reply callback that the missing library hands to the
  handler of endpoint \<open>dest\<close>. Running it sends the reply: a task for the master's
  executor of the calling side.\<close>

definition send_reply :: "endpoint \<Rightarrow> nat \<Rightarrow> mojo EchoCallback" where
  "send_reply dest n v =
     (\<lambda>m. if phase m dest \<noteq> Open then (m, [])
           else (m, [CallPostDelayedTask (executor m (master_of (peer dest)))
                       (reply_arrives (peer dest) n v) 0]))"

text \<open>Modelled from the spec: the last task of a request, missing with the library. On
  the executor of the receiving endpoint it invokes the handler, which is the \<^verbatim>\<open>Echo\<close>
  of the source on the implementation bound there.\<close>

definition request_delivery ::
    "(endpoint \<Rightarrow> mojo IntegerSenderImpl) \<Rightarrow> endpoint \<Rightarrow> nat \<Rightarrow> int32 \<Rightarrow> mojo task" where
  "request_delivery impl dest n v =
     Closure 2 (\<lambda>m. if phase m dest \<noteq> Open then (m, [])
                     else Echo (impl dest) v (send_reply dest n) m)"

text \<open>Modelled from the spec: the first task of a request, missing with the library: the
  message arrives at the executor of the master of the receiving side, which posts the
  delivery on the associated endpoint's executor, or delivers if the message is for
  the master itself.\<close>

definition request_arrives ::
    "(endpoint \<Rightarrow> mojo IntegerSenderImpl) \<Rightarrow> endpoint \<Rightarrow> nat \<Rightarrow> int32 \<Rightarrow> mojo task" where
  "request_arrives impl dest n v =
     Closure 1 (\<lambda>m. if phase m (master_of dest) \<noteq> Open then (m, [])
                     else if is_master dest then closure_body (request_delivery impl dest n v) m
                     else (m, [CallPostDelayedTask (executor m dest) (request_delivery impl dest n v) 0]))"

text \<open>Modelled from the spec: \<open>Call(request, replyCallback)\<close> of the missing library
  (the generated \<^verbatim>\<open>Echo\<close> of an interface pointer). On a closed endpoint it is a fatal
  programming error. Otherwise it allocates an identifier, registers the pending call
  when the callback is not null, and sends: as in the test, where after the call only
  the two runners of the receiving side are run, the message is a task of the master's
  executor of the receiving side as soon as the call returns.\<close>

definition Call ::
    "(endpoint \<Rightarrow> mojo IntegerSenderImpl) \<Rightarrow> endpoint \<Rightarrow> int32 \<Rightarrow> (int32 \<Rightarrow> reaction list) option
       \<Rightarrow> mojo world \<Rightarrow> fatal + mojo world" where
  "Call impl e v callback w =
     (let m = ext w; n = next_id m e in
      if phase m e \<noteq> Open then Inl CallOnClosedEndpoint
      else Inr (fst (PostDelayedTask (executor m (master_of (peer e)))
                       (request_arrives impl (peer e) n v) 0
                       (w\<lparr>ext := m\<lparr>next_id := (next_id m)(e := Suc n),
                                   pending := (case callback of
                                                 None \<Rightarrow> pending m
                                               | Some c \<Rightarrow> (pending m)(e := pending m e @ [(n, c)]))\<rparr>\<rparr>))))"

subsection \<open>Closing\<close>

text \<open>Modelled from the spec: the connection-error task of the missing library. It runs
  on the endpoint's own executor; on an endpoint that is \<open>Closing\<close> it makes it
  \<open>Closed\<close> and runs the registered handler, if there is one; otherwise it does
  nothing.\<close>

definition error_task :: "endpoint \<Rightarrow> mojo task" where
  "error_task e =
     Closure 6 (\<lambda>m. if phase m e \<noteq> Closing then (m, [])
                     else (case error_handler m e of
                             None \<Rightarrow> (m\<lparr>phase := (phase m)(e := Closed)\<rparr>, [])
                           | Some rs \<Rightarrow> react rs (m\<lparr>phase := (phase m)(e := Closed)\<rparr>)))"

text \<open>Modelled from the spec: closing one endpoint in the missing library: idempotent;
  an open endpoint becomes \<open>Closing\<close>, its pending calls are dropped, and its
  connection-error task is posted on its own executor.\<close>

definition close_one :: "endpoint \<Rightarrow> mojo effect" where
  "close_one e m =
     (if phase m e \<noteq> Open then (m, [])
      else (m\<lparr>phase := (phase m)(e := Closing), pending := (pending m)(e := [])\<rparr>,
            [CallPostDelayedTask (executor m e) (error_task e) 0]))"

text \<open>Modelled from the spec: closing several endpoints of the missing library, one
  after the other.\<close>

fun close_all :: "endpoint list \<Rightarrow> mojo effect" where
  "close_all [] m = (m, [])"
| "close_all (e # es) m =
     (case close_one e m of (m1, cs1) \<Rightarrow>
        (case close_all es m1 of (m2, cs2) \<Rightarrow> (m2, cs1 @ cs2)))"

text \<open>Modelled from the spec: the ownership rule of the missing library: closing a master
  closes every associated endpoint created under it on its side; closing an associated
  endpoint closes that endpoint only.\<close>

definition closed_with :: "endpoint \<Rightarrow> mojo \<Rightarrow> endpoint list" where
  "closed_with e m =
     (case e of
        Master s \<Rightarrow> Master s # map (\<lambda>i. Associated i s) (children m s)
      | Associated i s \<Rightarrow> [Associated i s])"

text \<open>Modelled from the spec: how the other side of the missing library learns of a
  close: as a task on its master's executor, which closes the peer (and, for a master,
  what is closed with it), so that each of them reports a connection error on its own
  executor.\<close>

definition peer_closed_arrives :: "endpoint \<Rightarrow> mojo task" where
  "peer_closed_arrives e = Closure 5 (\<lambda>m. close_all (closed_with e m) m)"

text \<open>Modelled from the spec: \<open>Close()\<close> of the missing library (\<^verbatim>\<open>Binding::Close\<close>, the
  \<^verbatim>\<open>reset\<close> of an interface pointer).\<close>

definition Close :: "endpoint \<Rightarrow> mojo effect" where
  "Close e m =
     (if phase m e \<noteq> Open then (m, [])
      else (case close_all (closed_with e m) m of (m', cs) \<Rightarrow>
              (m', cs @ [CallPostDelayedTask (executor m (master_of (peer e)))
                           (peer_closed_arrives (peer e)) 0])))"

text \<open>Modelled from the spec: \<open>SetConnectionErrorHandler\<close> of the missing library.\<close>

definition SetConnectionErrorHandler :: "endpoint \<Rightarrow> reaction list \<Rightarrow> mojo \<Rightarrow> mojo" where
  "SetConnectionErrorHandler e rs m = m\<lparr>error_handler := (error_handler m)(e := Some rs)\<rparr>"

text \<open>Modelled from the spec: \<open>CreateAssociated(parent, childExecutor)\<close> of the missing
  library: a new associated endpoint under the parent's side, open and bound to the
  given executor.\<close>

definition CreateAssociated :: "endpoint \<Rightarrow> runner_ref \<Rightarrow> mojo \<Rightarrow> mojo \<times> endpoint" where
  "CreateAssociated parent ex m =
     (let s = side_of parent; i = length (children m s); a = Associated i s in
      (m\<lparr>executor := (executor m)(a := ex), phase := (phase m)(a := Open),
         children := (children m)(s := children m s @ [i])\<rparr>, a))"

text \<open>Modelled from the spec: a fresh connection of the missing library (\<^verbatim>\<open>GetProxy\<close>
  and the constructor of a binding): the two masters are open and bound to the given
  runners; nothing else exists yet.\<close>

definition connected :: "runner_ref \<Rightarrow> runner_ref \<Rightarrow> mojo" where
  "connected ptr_runner binding_runner =
     \<lparr>executor = (\<lambda>e. if side_of e = PtrSide then ptr_runner else binding_runner),
      phase = (\<lambda>e. if is_master e then Open else Closed),
      error_handler = (\<lambda>e. None),
      pending = (\<lambda>e. []),
      next_id = (\<lambda>e. 0),
      children = (\<lambda>s. []),
      observed = []\<rparr>"

subsection \<open>The fixtures and closures of the tests\<close>

text \<open>The runners of \<^verbatim>\<open>AssociatedBindTaskRunnerTest\<close>, all created on the test's thread
  0, and its endpoints after \<^verbatim>\<open>SetUp()\<close>: \<^verbatim>\<open>connection_ptr_\<close> is \<open>Master PtrSide\<close>, the
  binding of \<^verbatim>\<open>connection_impl_\<close> is \<open>Master ImplSide\<close>, \<^verbatim>\<open>sender_ptr_\<close> is
  \<open>Associated 0 PtrSide\<close> and the binding of the sender implementation is
  \<open>Associated 0 ImplSide\<close>. A second pair of associated endpoints, on runners of its own,
  stands for the other associated endpoints that a master may have.\<close>

definition connection_binding_task_runner :: runner_ref where
  "connection_binding_task_runner = 0"

definition connection_ptr_task_runner :: runner_ref where
  "connection_ptr_task_runner = 1"

definition sender_binding_task_runner :: runner_ref where
  "sender_binding_task_runner = 2"

definition sender_ptr_task_runner :: runner_ref where
  "sender_ptr_task_runner = 3"

definition second_binding_task_runner :: runner_ref where
  "second_binding_task_runner = 4"

definition second_ptr_task_runner :: runner_ref where
  "second_ptr_task_runner = 5"

definition SetUp :: "mojo world" where
  "SetUp = fresh_world
     (fst (CreateAssociated (Master ImplSide) second_binding_task_runner
       (fst (CreateAssociated (Master PtrSide) second_ptr_task_runner
         (fst (CreateAssociated (Master ImplSide) sender_binding_task_runner
           (fst (CreateAssociated (Master PtrSide) sender_ptr_task_runner
             (connected connection_ptr_task_runner connection_binding_task_runner)))))))))"

text \<open>The fixture with the connection-error handlers that the tests
  \<^verbatim>\<open>BindingConnectionError\<close> and \<^verbatim>\<open>PtrConnectionError\<close> register between them: on
  \<^verbatim>\<open>sender_ptr_\<close>, on the binding of the sender implementation, on \<^verbatim>\<open>connection_ptr_\<close>
  and on the binding of \<^verbatim>\<open>connection_impl_\<close>. Each sets its flag and quits its own
  runner.\<close>

definition test_error_handler :: "endpoint \<Rightarrow> runner_ref \<Rightarrow> reaction list" where
  "test_error_handler e r = [Observe (ConnectionError e), QuitRunner r]"

definition SetUp_with_handlers :: "mojo world" where
  "SetUp_with_handlers = SetUp\<lparr>ext :=
     SetConnectionErrorHandler (Associated 0 PtrSide)
       (test_error_handler (Associated 0 PtrSide) sender_ptr_task_runner)
     (SetConnectionErrorHandler (Associated 0 ImplSide)
       (test_error_handler (Associated 0 ImplSide) sender_binding_task_runner)
     (SetConnectionErrorHandler (Master PtrSide)
       (test_error_handler (Master PtrSide) connection_ptr_task_runner)
     (SetConnectionErrorHandler (Master ImplSide)
       (test_error_handler (Master ImplSide) connection_binding_task_runner)
     (ext SetUp))))\<rparr>"

text \<open>The echo handler and the reply callback of the test \<^verbatim>\<open>MethodCall\<close> of
  \<^verbatim>\<open>AssociatedBindTaskRunnerTest\<close>: the handler sets \<^verbatim>\<open>echo_called\<close> and runs the
  callback with the value, the callback sets \<^verbatim>\<open>echo_replied\<close>. An implementation
  on which no handler was set is \<open>IntegerSenderImpl\<close> as constructed.\<close>

definition test_echo_handler :: "int32 \<Rightarrow> mojo EchoCallback \<Rightarrow> mojo effect" where
  "test_echo_handler v callback = (\<lambda>m. callback v (m\<lparr>observed := observed m @ [EchoCalled v]\<rparr>))"

definition test_impl :: "endpoint \<Rightarrow> mojo IntegerSenderImpl" where
  "test_impl e = set_echo_handler (Some test_echo_handler) IntegerSenderImpl"

definition test_callback :: "int32 \<Rightarrow> reaction list" where
  "test_callback v = [Observe (EchoReplied v)]"

definition plain_impl :: "endpoint \<Rightarrow> mojo IntegerSenderImpl" where
  "plain_impl e = IntegerSenderImpl"

text \<open>The fixture of \<^verbatim>\<open>BindTaskRunnerTest\<close>: one connection, its two masters bound to
  two runners created on the test's thread. The echo handler of its test
  \<^verbatim>\<open>MethodCall\<close> sets \<^verbatim>\<open>echo_called\<close>, runs the callback with the value and quits the
  binding's runner; the reply callback sets \<^verbatim>\<open>echo_replied\<close> and quits the pointer's
  runner.\<close>

definition binding_task_runner :: runner_ref where
  "binding_task_runner = 0"

definition ptr_task_runner :: runner_ref where
  "ptr_task_runner = 1"

definition BindTaskRunnerTest_SetUp :: "mojo world" where
  "BindTaskRunnerTest_SetUp = fresh_world (connected ptr_task_runner binding_task_runner)"

definition quitting_echo_handler :: "runner_ref \<Rightarrow> int32 \<Rightarrow> mojo EchoCallback \<Rightarrow> mojo effect" where
  "quitting_echo_handler r v callback =
     (\<lambda>m. case callback v (m\<lparr>observed := observed m @ [EchoCalled v]\<rparr>) of
             (m', cs) \<Rightarrow> (m', cs @ [CallQuit r]))"

definition quitting_impl :: "endpoint \<Rightarrow> mojo IntegerSenderImpl" where
  "quitting_impl e =
     set_echo_handler (Some (quitting_echo_handler binding_task_runner)) IntegerSenderImpl"

definition quitting_callback :: "int32 \<Rightarrow> reaction list" where
  "quitting_callback v = [Observe (EchoReplied v), QuitRunner ptr_task_runner]"

text \<open>A world with the connection-error handlers of a test registered: for each endpoint
  of the list, the handler that sets its flag and quits the given runner. And the flags
  set so far in a world.\<close>

definition with_error_handlers :: "(endpoint \<times> runner_ref) list \<Rightarrow> mojo world \<Rightarrow> mojo world" where
  "with_error_handlers hs w =
     w\<lparr>ext := fold (\<lambda>(e, r). SetConnectionErrorHandler e (test_error_handler e r)) hs (ext w)\<rparr>"

definition flags_set :: "mojo world \<Rightarrow> obs list" where
  "flags_set w = observed (ext w)"

text \<open>Sequencing of calls that may abort or never return, and \<^verbatim>\<open>RunOneTask()\<close> on
  each runner of a list in turn.\<close>

fun then_do :: "('e + 'a) option \<Rightarrow> ('a \<Rightarrow> ('e + 'a) option) \<Rightarrow> ('e + 'a) option" where
  "then_do None f = None"
| "then_do (Some (Inl e)) f = Some (Inl e)"
| "then_do (Some (Inr a)) f = f a"

fun run_each :: "thread \<Rightarrow> runner_ref list \<Rightarrow> 'x world \<Rightarrow> (fatal + 'x world) option" where
  "run_each cur [] w = Some (Inr w)"
| "run_each cur (r # rs) w = then_do (RunOneTask cur r w) (run_each cur rs)"

text \<open>Modelled from the spec: what the connection-error handler registered with the
  missing library for an endpoint does when it runs: the flags it sets and the calls it
  makes. Nothing, when none is registered.\<close>

definition handler_observations :: "mojo \<Rightarrow> endpoint \<Rightarrow> obs list" where
  "handler_observations m e =
     (case error_handler m e of None \<Rightarrow> [] | Some rs \<Rightarrow> observations rs)"

definition handler_quits :: "mojo \<Rightarrow> endpoint \<Rightarrow> mojo call list" where
  "handler_quits m e = (case error_handler m e of None \<Rightarrow> [] | Some rs \<Rightarrow> quits rs)"

section \<open>Facts about running a closure\<close>

lemma do_call_tasks:
  "do_call cur c w = Inr w' \<Longrightarrow> tasks (runners w' r) = tasks (runners w r) @ posted_to r [c]"
  by (cases c)
     (auto simp: PostDelayedTask_def PostNonNestableDelayedTask_def NOTREACHED_def Quit_def
        DCHECK_def upd_runner_def split: if_splits sum.splits)

lemma posted_to_Cons: "posted_to r (c # cs) = posted_to r [c] @ posted_to r cs"
  by (cases c) auto

lemma do_calls_tasks:
  "do_calls cur cs w = Inr w' \<Longrightarrow> tasks (runners w' r) = tasks (runners w r) @ posted_to r cs"
proof (induction cs arbitrary: w)
  case Nil
  then show ?case by simp
next
  case (Cons c cs)
  from Cons.prems obtain w1 where 1: "do_call cur c w = Inr w1" and 2: "do_calls cur cs w1 = Inr w'"
    by (auto split: sum.splits)
  show ?case
    using do_call_tasks[OF 1, of r] Cons.IH[OF 2] posted_to_Cons[of r c cs] by simp
qed

lemma do_call_frame:
  "do_call cur c w = Inr w' \<Longrightarrow> ext w' = ext w \<and> history w' = history w
     \<and> thread_id (runners w' r) = thread_id (runners w r)"
  by (cases c)
     (auto simp: PostDelayedTask_def PostNonNestableDelayedTask_def NOTREACHED_def Quit_def
        DCHECK_def upd_runner_def split: if_splits sum.splits)

lemma do_calls_frame:
  "do_calls cur cs w = Inr w' \<Longrightarrow> ext w' = ext w \<and> history w' = history w
     \<and> thread_id (runners w' r) = thread_id (runners w r)"
proof (induction cs arbitrary: w)
  case Nil
  then show ?case by simp
next
  case (Cons c cs)
  from Cons.prems obtain w1 where 1: "do_call cur c w = Inr w1" and 2: "do_calls cur cs w1 = Inr w'"
    by (auto split: sum.splits)
  show ?case
    using do_call_frame[OF 1, of r] Cons.IH[OF 2] by simp
qed

lemma do_call_quit:
  "do_call cur c w = Inr w' \<Longrightarrow>
     quit_called (runners w' r) = (quit_called (runners w r) \<or> c = CallQuit r)"
  by (cases c)
     (auto simp: PostDelayedTask_def PostNonNestableDelayedTask_def NOTREACHED_def Quit_def
        DCHECK_def upd_runner_def split: if_splits sum.splits)

lemma do_calls_quit:
  "do_calls cur cs w = Inr w' \<Longrightarrow>
     quit_called (runners w' r) = (quit_called (runners w r) \<or> CallQuit r \<in> set cs)"
proof (induction cs arbitrary: w)
  case Nil
  then show ?case by simp
next
  case (Cons c cs)
  from Cons.prems obtain w1 where 1: "do_call cur c w = Inr w1" and 2: "do_calls cur cs w1 = Inr w'"
    by (auto split: sum.splits)
  show ?case
    using do_call_quit[OF 1, of r] Cons.IH[OF 2] by auto
qed

lemma run_task_effect:
  assumes "run_task cur r t w = Inr w'" and "closure_body t (ext w) = (x', cs)"
  shows "ext w' = x'" and "history w' = history w @ [(r, t, cs)]"
    and "tasks (runners w' q) = tasks (runners w q) @ posted_to q cs"
    and "quit_called (runners w' q) = (quit_called (runners w q) \<or> CallQuit q \<in> set cs)"
    and "thread_id (runners w' q) = thread_id (runners w q)"
  using assms do_calls_frame[of cur cs "w\<lparr>ext := x', history := history w @ [(r, t, cs)]\<rparr>" w' q]
    do_calls_tasks[of cur cs "w\<lparr>ext := x', history := history w @ [(r, t, cs)]\<rparr>" w' q]
    do_calls_quit[of cur cs "w\<lparr>ext := x', history := history w @ [(r, t, cs)]\<rparr>" w' q]
  by (simp_all add: run_task_def)

lemma RunOneTask_loop_nonempty:
  assumes "RunOneTask_loop cur r w = Some y"
  shows "tasks (runners w r) \<noteq> []"
proof (rule RunOneTask_loop.raw_induct
    [where P = "\<lambda>cur r w y. tasks (runners w r) \<noteq> []", OF _ assms])
  fix loop :: "thread \<Rightarrow> runner_ref \<Rightarrow> 'a world \<Rightarrow> (fatal + 'a world) option"
  fix cur r w y
  assume IH: "\<And>cur r w y. loop cur r w = Some y \<Longrightarrow> tasks (runners w r) \<noteq> []"
  assume step: "(case tasks (runners w r) of
        [] \<Rightarrow> (case Wait r w of None \<Rightarrow> None | Some w' \<Rightarrow> loop cur r w')
      | task # rest \<Rightarrow>
          Some (run_task cur r task (upd_runner r (\<lambda>q. q\<lparr>tasks := rest\<rparr>) w))) = Some y"
  show "tasks (runners w r) \<noteq> []"
  proof
    assume e: "tasks (runners w r) = []"
    with step obtain w1 where w1: "Wait r w = Some w1" and l: "loop cur r w1 = Some y"
      by (auto split: option.splits)
    from w1 e have "tasks (runners w1 r) = []"
      by (auto simp: Wait_def upd_runner_def split: if_splits)
    with IH[OF l] show False by simp
  qed
qed

lemma Run_loop_returns:
  assumes "Run_loop cur r w = Some y"
  shows "\<not> quit_called (runners w r) \<longrightarrow>
     (\<forall>w'. y = Inr w' \<longrightarrow>
        (\<exists>es t cs. history w' = history w @ es @ [(r, t, cs)] \<and> CallQuit r \<in> set cs))"
proof (rule Run_loop.raw_induct
    [where P = "\<lambda>cur r w y. \<not> quit_called (runners w r) \<longrightarrow>
     (\<forall>w'. y = Inr w' \<longrightarrow>
        (\<exists>es t cs. history w' = history w @ es @ [(r, t, cs)] \<and> CallQuit r \<in> set cs))", OF _ assms])
  fix loop :: "thread \<Rightarrow> runner_ref \<Rightarrow> 'a world \<Rightarrow> (fatal + 'a world) option"
  fix cur r w y
  assume IH: "\<And>cur r w y. loop cur r w = Some y \<Longrightarrow> \<not> quit_called (runners w r) \<longrightarrow>
     (\<forall>w'. y = Inr w' \<longrightarrow>
        (\<exists>es t cs. history w' = history w @ es @ [(r, t, cs)] \<and> CallQuit r \<in> set cs))"
  assume step: "(case tasks (runners w r) of
        [] \<Rightarrow> (case Wait r w of None \<Rightarrow> None | Some w' \<Rightarrow> loop cur r w')
      | task # rest \<Rightarrow>
          (case run_task cur r task (upd_runner r (\<lambda>q. q\<lparr>tasks := rest\<rparr>) w) of
             Inl e \<Rightarrow> Some (Inl e)
           | Inr w' \<Rightarrow> if quit_called (runners w' r) then Some (Inr w') else loop cur r w')) = Some y"
  show "\<not> quit_called (runners w r) \<longrightarrow>
     (\<forall>w'. y = Inr w' \<longrightarrow>
        (\<exists>es t cs. history w' = history w @ es @ [(r, t, cs)] \<and> CallQuit r \<in> set cs))"
  proof (intro impI allI)
    fix w'
    assume nq: "\<not> quit_called (runners w r)" and y: "y = Inr w'"
    show "\<exists>es t cs. history w' = history w @ es @ [(r, t, cs)] \<and> CallQuit r \<in> set cs"
    proof (cases "tasks (runners w r)")
      case Nil
      with step obtain w1 where w1: "Wait r w = Some w1" and l: "loop cur r w1 = Some y"
        by (auto split: option.splits)
      from w1 nq have "history w1 = history w" "\<not> quit_called (runners w1 r)"
        by (auto simp: Wait_def upd_runner_def split: if_splits)
      with IH[OF l] y show ?thesis by simp
    next
      case (Cons t rest)
      let ?p = "upd_runner r (\<lambda>q. q\<lparr>tasks := rest\<rparr>) w"
      obtain x' cs where b: "closure_body t (ext ?p) = (x', cs)" by (cases "closure_body t (ext ?p)")
      from step Cons y obtain w1 where rt: "run_task cur r t ?p = Inr w1"
        and rest: "(if quit_called (runners w1 r) then Some (Inr w1) else loop cur r w1) = Some y"
        by (auto split: sum.splits)
      have h1: "history w1 = history w @ [(r, t, cs)]"
        using run_task_effect(2)[OF rt b] by (simp add: upd_runner_def)
      have q1: "quit_called (runners w1 r) = (CallQuit r \<in> set cs)"
        using run_task_effect(4)[OF rt b, of r] nq by (simp add: upd_runner_def)
      show ?thesis
      proof (cases "quit_called (runners w1 r)")
        case True
        with rest y have "w' = w1" by simp
        with h1 q1 True show ?thesis by auto
      next
        case False
        with rest have l: "loop cur r w1 = Some y" by simp
        from IH[OF l] False y obtain es t' cs' where
          "history w' = history w1 @ es @ [(r, t', cs')]" "CallQuit r \<in> set cs'" by auto
        with h1 have "history w' = history w @ ((r, t, cs) # es) @ [(r, t', cs')]" by simp
        with \<open>CallQuit r \<in> set cs'\<close> show ?thesis by blast
      qed
    qed
  qed
qed


section \<open>Posting with a delay\<close>

text \<open>
  C4, as stated: every delayed-task posting operation aborts, and no task posted with a
  delay is ever enqueued or run. \<^verbatim>\<open>PostDelayedTask\<close> does not abort: it ignores the
  delay, enqueues the task and returns true, and \<^verbatim>\<open>RunOneTask\<close> then runs the task.
  Here a task is posted with a delay of 1000 and run.
\<close>

theorem C4_delayed_task_is_enqueued_and_run:
  "snd (PostDelayedTask 0 (marking 7) 1000 (fresh_world [])) = True
   \<and> tasks (runners (fst (PostDelayedTask 0 (marking 7) 1000 (fresh_world []))) 0) = [marking 7]
   \<and> map_option (map_sum id ext)
       (RunOneTask 0 0 (fst (PostDelayedTask 0 (marking 7) 1000 (fresh_world [])))) = Some (Inr [7])"
  by (simp add: PostDelayedTask_def fresh_world_def TestTaskRunner_def upd_runner_def
      RunOneTask_def DCHECK_def RunsTasksOnCurrentThread_def RunOneTask_loop.simps
      run_task_def marking_def)

text \<open>
  C4, amended: \<^verbatim>\<open>PostNonNestableDelayedTask\<close> is a fatal programming error for every
  task and delay and enqueues nothing; \<^verbatim>\<open>PostDelayedTask\<close>, for every delay, appends
  the task at the back of the queue, signals the event, changes nothing else of the
  runner and returns true.
\<close>

theorem C4_delayed_posting:
  "PostNonNestableDelayedTask r task delay w = Inl NotReached
   \<and> snd (PostDelayedTask r task delay w) = True
   \<and> runners (fst (PostDelayedTask r task delay w)) r =
       (runners w r)\<lparr>tasks := tasks (runners w r) @ [task], task_ready := True\<rparr>"
  by (simp add: PostNonNestableDelayedTask_def NOTREACHED_def PostDelayedTask_def upd_runner_def)

section \<open>Echo\<close>

text \<open>
  C10: on an \<^verbatim>\<open>IntegerSenderImpl\<close> whose echo handler is null, \<^verbatim>\<open>Echo(v, callback)\<close>
  is exactly one run of the callback with \<open>v\<close>, inside the call; with a handler set,
  \<^verbatim>\<open>Echo\<close> is exactly one run of the handler with \<open>v\<close> and the callback, and the
  callback runs only if the handler runs it. The recording callback shows the count:
  it has seen \<open>v\<close> once after the first, and nothing after the second when the handler
  drops it.
\<close>

theorem C10_echo:
  "Echo IntegerSenderImpl v callback = callback v
   \<and> Echo (set_echo_handler None impl) v callback = callback v
   \<and> Echo (set_echo_handler (Some h) impl) v callback = h v callback
   \<and> Echo IntegerSenderImpl v recording_callback seen = (seen @ [v], [])
   \<and> Echo (set_echo_handler (Some dropping_handler) impl') v recording_callback seen = (seen, [])"
  by (simp add: Echo_def IntegerSenderImpl_def set_echo_handler_def recording_callback_def
      dropping_handler_def)


section \<open>RunOneTask\<close>

lemma interleave_append: "interleave (es @ fs) s = interleave fs (interleave es s)"
  by (simp add: interleave_def)

lemma interleave_pushes:
  "interleave (map (Push th) ts) s
     = s\<lparr>s_tasks := s_tasks s @ ts, s_pushed := s_pushed s @ ts\<rparr>"
  by (induction ts arbitrary: s) (simp_all add: interleave_def)

lemma waiting_steps:
  "s_pc s = OneLocked \<or> s_pc s = OneWait \<Longrightarrow> s_tasks s = [] \<Longrightarrow>
   (s_pc (interleave (replicate n Step) s) = OneLocked
      \<or> s_pc (interleave (replicate n Step) s) = OneWait)
   \<and> s_tasks (interleave (replicate n Step) s) = []
   \<and> s_started (interleave (replicate n Step) s) = s_started s
   \<and> s_pushed (interleave (replicate n Step) s) = s_pushed s"
proof (induction n arbitrary: s)
  case 0
  then show ?case by (simp add: interleave_def)
next
  case (Suc n)
  have 1: "s_pc (owner_step s) = OneLocked \<or> s_pc (owner_step s) = OneWait"
    and 2: "s_tasks (owner_step s) = []"
    and 3: "s_started (owner_step s) = s_started s" "s_pushed (owner_step s) = s_pushed s"
    using Suc.prems by auto
  have "interleave (replicate (Suc n) Step) s = interleave (replicate n Step) (owner_step s)"
    by (simp add: interleave_def)
  with Suc.IH[OF 1 2] 3 show ?case by simp
qed

lemma woken_by_a_post:
  assumes "s_pc s = OneLocked \<or> s_pc s = OneWait" and "s_tasks s = []"
  shows "s_pc (interleave (map (Push th) (a # others) @ [Signal th', Step, Step, Step]) s) = Idle
    \<and> s_started (interleave (map (Push th) (a # others) @ [Signal th', Step, Step, Step]) s)
        = s_started s @ [a]
    \<and> s_tasks (interleave (map (Push th) (a # others) @ [Signal th', Step, Step, Step]) s) = others
    \<and> s_pushed (interleave (map (Push th) (a # others) @ [Signal th', Step, Step, Step]) s)
        = s_pushed s @ a # others"
proof -
  let ?S = "s\<lparr>s_tasks := a # others, s_pushed := s_pushed s @ a # others\<rparr>"
  have p: "interleave (map (Push th) (a # others) @ [Signal th', Step, Step, Step]) s
      = interleave [Signal th', Step, Step, Step] ?S"
    unfolding interleave_append interleave_pushes assms(2) by simp
  have q: "interleave [Signal th', Step, Step, Step] ?S
      = owner_step (owner_step (owner_step (?S\<lparr>s_task_ready := True\<rparr>)))"
    by (simp add: interleave_def)
  from assms(1) have "s_pc (owner_step (owner_step (owner_step (?S\<lparr>s_task_ready := True\<rparr>)))) = Idle
    \<and> s_started (owner_step (owner_step (owner_step (?S\<lparr>s_task_ready := True\<rparr>)))) = s_started s @ [a]
    \<and> s_tasks (owner_step (owner_step (owner_step (?S\<lparr>s_task_ready := True\<rparr>)))) = others
    \<and> s_pushed (owner_step (owner_step (owner_step (?S\<lparr>s_task_ready := True\<rparr>)))) = s_pushed s @ a # others"
  proof
    assume "s_pc s = OneLocked"
    then show ?thesis by simp
  next
    assume "s_pc s = OneWait"
    then show ?thesis by simp
  qed
  then show ?thesis unfolding p q .
qed

text \<open>
  C7: called on its owner thread, \<^verbatim>\<open>RunOneTask()\<close> does not return while the queue is
  empty (in the sequential model nobody else can fill it, so it never returns). On a
  queue with front task \<open>t\<close> it returns after running \<open>t\<close>, and when \<open>t\<close> has
  not aborted, \<open>t\<close> is the one task added to the history, and every queue is what it
  was, without \<open>t\<close>, followed by the tasks that \<open>t\<close> itself posted there: the other
  queued tasks stay, in their order. A wait that follows a post returns, the post having
  signalled the event.

  Among other threads: the owner calls \<^verbatim>\<open>RunOneTask()\<close> on an empty queue. Whatever
  number of steps it then takes, it has not returned and has started nothing while
  nobody pushes. As soon as some thread has pushed tasks and signalled, the owner
  wakes up, starts exactly the oldest of them and returns; the others stay queued in
  their order.
\<close>

theorem C7_run_one_task:
  assumes "RunsTasksOnCurrentThread cur r w"
  shows "(tasks (runners w r) = [] \<longrightarrow> RunOneTask cur r w = None)
    \<and> (tasks (runners w r) = t # rest \<and> closure_body t (ext w) = (x', cs) \<longrightarrow>
         RunOneTask cur r w = Some (run_task cur r t (upd_runner r (\<lambda>q. q\<lparr>tasks := rest\<rparr>) w))
         \<and> (RunOneTask cur r w = Some (Inr w') \<longrightarrow>
               history w' = history w @ [(r, t, cs)] \<and> ext w' = x'
               \<and> (\<forall>q. tasks (runners w' q) =
                        (if q = r then rest else tasks (runners w q)) @ posted_to q cs)))
    \<and> Wait r (fst (PostDelayedTask r t d w))
         = Some (upd_runner r (\<lambda>q. q\<lparr>task_ready := False\<rparr>) (fst (PostDelayedTask r t d w)))
    \<and> (s_pc s = Idle \<and> s_tasks s = [] \<longrightarrow>
          s_pc (interleave (EnterRunOneTask # replicate n Step) s) \<noteq> Idle
        \<and> s_started (interleave (EnterRunOneTask # replicate n Step) s) = s_started s
        \<and> s_pc (interleave (EnterRunOneTask # replicate n Step
                  @ map (Push th) (a # others) @ [Signal th', Step, Step, Step]) s) = Idle
        \<and> s_started (interleave (EnterRunOneTask # replicate n Step
                  @ map (Push th) (a # others) @ [Signal th', Step, Step, Step]) s)
            = s_started s @ [a]
        \<and> s_tasks (interleave (EnterRunOneTask # replicate n Step
                  @ map (Push th) (a # others) @ [Signal th', Step, Step, Step]) s) = others)"
proof -
  have seq: "(tasks (runners w r) = [] \<longrightarrow> RunOneTask cur r w = None)
    \<and> (tasks (runners w r) = t # rest \<and> closure_body t (ext w) = (x', cs) \<longrightarrow>
         RunOneTask cur r w = Some (run_task cur r t (upd_runner r (\<lambda>q. q\<lparr>tasks := rest\<rparr>) w))
         \<and> (RunOneTask cur r w = Some (Inr w') \<longrightarrow>
               history w' = history w @ [(r, t, cs)] \<and> ext w' = x'
               \<and> (\<forall>q. tasks (runners w' q) =
                        (if q = r then rest else tasks (runners w q)) @ posted_to q cs)))"
  proof (intro conjI impI allI)
  assume "tasks (runners w r) = []"
  then have "RunOneTask_loop cur r w = None"
    using RunOneTask_loop_nonempty[of cur r w] by (cases "RunOneTask_loop cur r w") auto
  with assms show "RunOneTask cur r w = None"
    by (simp add: RunOneTask_def DCHECK_def)
next
  assume ne: "tasks (runners w r) = t # rest \<and> closure_body t (ext w) = (x', cs)"
  let ?p = "upd_runner r (\<lambda>q. q\<lparr>tasks := rest\<rparr>) w"
  from ne assms show ret: "RunOneTask cur r w = Some (run_task cur r t ?p)"
    by (simp add: RunOneTask_def DCHECK_def RunOneTask_loop.simps[of cur r w])
  assume a: "RunOneTask cur r w = Some (Inr w')"
  with ret have rt: "run_task cur r t ?p = Inr w'" by simp
  from ne have b: "closure_body t (ext ?p) = (x', cs)"
    by (simp add: upd_runner_def)
  show "history w' = history w @ [(r, t, cs)]"
    using run_task_effect(2)[OF rt b] by (simp add: upd_runner_def)
  show "ext w' = x'"
    using run_task_effect(1)[OF rt b] .
  fix q
  show "tasks (runners w' q) = (if q = r then rest else tasks (runners w q)) @ posted_to q cs"
    using run_task_effect(3)[OF rt b, of q] by (simp add: upd_runner_def)
qed
  have wt: "Wait r (fst (PostDelayedTask r t d w))
         = Some (upd_runner r (\<lambda>q. q\<lparr>task_ready := False\<rparr>) (fst (PostDelayedTask r t d w)))"
    by (simp add: Wait_def PostDelayedTask_def upd_runner_def)
  have conc: "s_pc (interleave (EnterRunOneTask # replicate n Step) s) \<noteq> Idle
        \<and> s_started (interleave (EnterRunOneTask # replicate n Step) s) = s_started s
        \<and> s_pc (interleave (EnterRunOneTask # replicate n Step
                  @ map (Push th) (a # others) @ [Signal th', Step, Step, Step]) s) = Idle
        \<and> s_started (interleave (EnterRunOneTask # replicate n Step
                  @ map (Push th) (a # others) @ [Signal th', Step, Step, Step]) s)
            = s_started s @ [a]
        \<and> s_tasks (interleave (EnterRunOneTask # replicate n Step
                  @ map (Push th) (a # others) @ [Signal th', Step, Step, Step]) s) = others"
    if idle: "s_pc s = Idle \<and> s_tasks s = []"
  proof -
    let ?e = "s\<lparr>s_pc := OneLocked\<rparr>"
    let ?b = "interleave (replicate n Step) ?e"
    have en: "interleave (EnterRunOneTask # es) s = interleave es ?e" for es
      using idle by (simp add: interleave_def)
    have e: "s_pc ?e = OneLocked \<or> s_pc ?e = OneWait" "s_tasks ?e = []"
      using idle by simp_all
    from waiting_steps[OF e, of n]
    have b: "s_pc ?b = OneLocked \<or> s_pc ?b = OneWait" "s_tasks ?b = []"
      "s_started ?b = s_started s" "s_pushed ?b = s_pushed s"
      by simp_all
    have sp: "interleave (EnterRunOneTask # replicate n Step
                  @ map (Push th) (a # others) @ [Signal th', Step, Step, Step]) s
            = interleave (map (Push th) (a # others) @ [Signal th', Step, Step, Step]) ?b"
      by (simp only: en interleave_append)
    from b(1) have "s_pc ?b \<noteq> Idle" by auto
    with woken_by_a_post[OF b(1,2), of th a others th'] b(3) show ?thesis
      by (simp only: sp) (simp add: en)
  qed
  show ?thesis
    by (rule conjI[OF seq[THEN conjunct1] conjI[OF seq[THEN conjunct2] conjI[OF wt impI[OF conc]]]])
qed

theorem C7_witness:
  "RunsTasksOnCurrentThread 0 0 three_posted
   \<and> tasks (runners three_posted 0) = [marking 1, marking 2, marking 3]
   \<and> closure_body (marking 1) (ext three_posted) = ([1], [])
   \<and> map_option (map_sum id (\<lambda>w. (history w, ext w, tasks (runners w 0))))
         (RunOneTask 0 0 three_posted)
       = Some (Inr ([(0, marking 1, [])], [1], [marking 2, marking 3]))
   \<and> RunsTasksOnCurrentThread 0 0 (fresh_world ([]::nat list))
   \<and> tasks (runners (fresh_world ([]::nat list)) 0) = []
   \<and> RunOneTask 0 0 (fresh_world ([]::nat list)) = None
   \<and> map_option (\<lambda>w. (task_ready (runners w 0), tasks (runners w 0)))
         (Wait 0 (fst (PostDelayedTask 0 (marking 1) 0 (fresh_world []))))
       = Some (False, [marking 1])
   \<and> s_pc (constructed :: nat shared) = Idle \<and> s_tasks (constructed :: nat shared) = []
   \<and> s_pc (interleave (EnterRunOneTask # replicate 4 Step) (constructed :: nat shared)) = OneWait
   \<and> s_started (interleave (EnterRunOneTask # replicate 4 Step) (constructed :: nat shared)) = []
   \<and> s_pc (interleave (EnterRunOneTask # replicate 4 Step
             @ map (Push 7) [10, 20] @ [Signal 7, Step, Step, Step]) (constructed :: nat shared))
       = Idle
   \<and> s_started (interleave (EnterRunOneTask # replicate 4 Step
             @ map (Push 7) [10, 20] @ [Signal 7, Step, Step, Step]) (constructed :: nat shared))
       = [10]
   \<and> s_tasks (interleave (EnterRunOneTask # replicate 4 Step
             @ map (Push 7) [10, 20] @ [Signal 7, Step, Step, Step]) (constructed :: nat shared))
       = [20]"
proof -
  let ?p = "upd_runner 0 (\<lambda>q. q\<lparr>tasks := [marking 2, marking 3]\<rparr>) three_posted"
  let ?W = "?p\<lparr>ext := [1], history := [(0, marking 1, [])]\<rparr>"
  have o: "RunsTasksOnCurrentThread 0 0 three_posted"
    "RunsTasksOnCurrentThread 0 0 (fresh_world ([]::nat list))"
    by (simp_all add: RunsTasksOnCurrentThread_def three_posted_def PostDelayedTask_def
        fresh_world_def TestTaskRunner_def upd_runner_def)
  have q: "tasks (runners three_posted 0) = [marking 1, marking 2, marking 3]
           \<and> closure_body (marking 1) (ext three_posted) = ([1], [])"
    by (simp add: three_posted_def PostDelayedTask_def fresh_world_def TestTaskRunner_def
        upd_runner_def marking_def)
  have e: "tasks (runners (fresh_world ([]::nat list)) 0) = []"
    by (simp add: fresh_world_def TestTaskRunner_def)
  have r: "run_task 0 0 (marking 1) ?p = Inr ?W"
    by (simp add: run_task_def three_posted_def PostDelayedTask_def fresh_world_def
        upd_runner_def marking_def)
  note t = C7_run_one_task[OF o(1), where t = "marking 1" and rest = "[marking 2, marking 3]"
      and x' = "[1]" and cs = "[]" and w' = ?W and s = "constructed :: nat shared"
      and n = 4 and a = 10 and others = "[20]" and th = 7 and th' = 7 and d = 0]
  from t q have "RunOneTask 0 0 three_posted = Some (run_task 0 0 (marking 1) ?p)"
    by blast
  with r have ret: "RunOneTask 0 0 three_posted = Some (Inr ?W)" by simp
  with t q have "history ?W = history three_posted @ [(0, marking 1, [])] \<and> ext ?W = [1]
      \<and> tasks (runners ?W 0) = [marking 2, marking 3] @ posted_to 0 ([] :: (nat list) call list)"
    by presburger
  moreover have "history three_posted = []"
    by (simp add: three_posted_def PostDelayedTask_def fresh_world_def upd_runner_def)
  ultimately have v: "history ?W = [(0, marking 1, [])] \<and> ext ?W = [1]
      \<and> tasks (runners ?W 0) = [marking 2, marking 3]"
    by simp
  note u = C7_run_one_task[OF o(2), where t = "marking 1" and d = 0
      and s = "constructed :: nat shared" and n = 4 and a = 10 and others = "[20]"
      and th = 7 and th' = 7]
  from u e have n: "RunOneTask 0 0 (fresh_world ([]::nat list)) = None"
    by blast
  have m: "map_option (map_sum id (\<lambda>w. (history w, ext w, tasks (runners w 0))))
         (RunOneTask 0 0 three_posted)
       = Some (Inr ([(0, marking 1, [])], [1], [marking 2, marking 3]))"
    unfolding ret using v by simp
  from u have "Wait 0 (fst (PostDelayedTask 0 (marking 1) 0 (fresh_world ([]::nat list))))
      = Some (upd_runner 0 (\<lambda>q. q\<lparr>task_ready := False\<rparr>)
                (fst (PostDelayedTask 0 (marking 1) 0 (fresh_world []))))"
    by blast
  then have wt: "map_option (\<lambda>w. (task_ready (runners w 0), tasks (runners w 0)))
         (Wait 0 (fst (PostDelayedTask 0 (marking 1) 0 (fresh_world ([]::nat list)))))
       = Some (False, [marking 1])"
    by (simp add: PostDelayedTask_def upd_runner_def fresh_world_def TestTaskRunner_def)
  have i: "s_pc (constructed :: nat shared) = Idle \<and> s_tasks (constructed :: nat shared) = []"
    by (simp add: constructed_def)
  with u have k: "s_started (interleave (EnterRunOneTask # replicate 4 Step) (constructed :: nat shared))
        = s_started (constructed :: nat shared)
     \<and> s_pc (interleave (EnterRunOneTask # replicate 4 Step
             @ map (Push 7) [10, 20] @ [Signal 7, Step, Step, Step]) (constructed :: nat shared))
       = Idle
     \<and> s_started (interleave (EnterRunOneTask # replicate 4 Step
             @ map (Push 7) [10, 20] @ [Signal 7, Step, Step, Step]) (constructed :: nat shared))
       = s_started (constructed :: nat shared) @ [10]
     \<and> s_tasks (interleave (EnterRunOneTask # replicate 4 Step
             @ map (Push 7) [10, 20] @ [Signal 7, Step, Step, Step]) (constructed :: nat shared))
       = [20]"
    by blast
  have k0: "s_started (constructed :: nat shared) = []" by (simp add: constructed_def)
  have w4: "s_pc (interleave (EnterRunOneTask # replicate 4 Step) (constructed :: nat shared))
      = OneWait"
    by (simp add: interleave_def constructed_def numeral_eq_Suc)
  from o q e n m wt i k[unfolded k0] w4 show ?thesis by simp
qed

section \<open>Run and Quit\<close>

text \<open>
  C1, as stated: when a task calls \<^verbatim>\<open>Quit()\<close> while other tasks are queued,
  \<^verbatim>\<open>Run()\<close> first runs them all. In the code the flag is read right after each task,
  inside the draining loop. Here the first of two queued tasks quits: \<^verbatim>\<open>Run()\<close>
  returns with the second task still in the queue, and only the first has left its mark.
\<close>

theorem C1_run_returns_mid_drain:
  "tasks (runners two_posted 0) = [quitting 1 0, marking 2]
   \<and> Run 0 0 two_posted = Some (Inr after_quitting)
   \<and> tasks (runners after_quitting 0) = [marking 2]
   \<and> ext after_quitting = [1]"
  by (simp add: two_posted_def after_quitting_def PostDelayedTask_def fresh_world_def
      TestTaskRunner_def upd_runner_def Run_def DCHECK_def RunsTasksOnCurrentThread_def
      Run_loop.simps run_task_def quitting_def Quit_def)

text \<open>
  C1, amended: at any turn of the loop of \<^verbatim>\<open>Run()\<close>, when the front task \<open>t\<close> calls
  \<^verbatim>\<open>Quit()\<close> on this runner and completes, \<^verbatim>\<open>Run()\<close> returns right after \<open>t\<close>:
  \<open>t\<close> is the only task it has added to the history, and the tasks that were queued
  behind \<open>t\<close> are still queued, in their order, followed by what \<open>t\<close> posted.
\<close>

theorem C1_run_returns_right_after_quitting_task:
  assumes "tasks (runners w r) = t # rest"
    and "closure_body t (ext w) = (x', cs)"
    and "CallQuit r \<in> set cs"
    and "run_task cur r t (upd_runner r (\<lambda>q. q\<lparr>tasks := rest\<rparr>) w) = Inr w'"
  shows "Run_loop cur r w = Some (Inr w')
    \<and> history w' = history w @ [(r, t, cs)]
    \<and> tasks (runners w' r) = rest @ posted_to r cs"
proof -
  let ?p = "upd_runner r (\<lambda>q. q\<lparr>tasks := rest\<rparr>) w"
  from assms(2) have b: "closure_body t (ext ?p) = (x', cs)" by (simp add: upd_runner_def)
  have q: "quit_called (runners w' r)"
    using run_task_effect(4)[OF assms(4) b, of r] assms(3) by simp
  have "Run_loop cur r w = Some (Inr w')"
    using assms(1,4) q by (simp add: Run_loop.simps[of cur r w])
  moreover have "history w' = history w @ [(r, t, cs)]"
    using run_task_effect(2)[OF assms(4) b] by (simp add: upd_runner_def)
  moreover have "tasks (runners w' r) = rest @ posted_to r cs"
    using run_task_effect(3)[OF assms(4) b, of r] by (simp add: upd_runner_def)
  ultimately show ?thesis by simp
qed


theorem C1_witness:
  "tasks (runners two_posted 0) = [quitting 1 0, marking 2]
   \<and> closure_body (quitting 1 0) (ext two_posted) = ([1], [CallQuit 0])
   \<and> CallQuit 0 \<in> set [CallQuit 0 :: (nat list) call]
   \<and> run_task 0 0 (quitting 1 0) (upd_runner 0 (\<lambda>q. q\<lparr>tasks := [marking 2]\<rparr>) two_posted)
       = Inr after_quitting
   \<and> Run_loop 0 0 two_posted = Some (Inr after_quitting)
   \<and> history after_quitting = history two_posted @ [(0, quitting 1 0, [CallQuit 0])]
   \<and> tasks (runners after_quitting 0) = [marking 2] @ posted_to 0 [CallQuit 0 :: (nat list) call]"
proof -
  have a: "tasks (runners two_posted 0) = [quitting 1 0, marking 2]"
    by (simp add: two_posted_def PostDelayedTask_def fresh_world_def TestTaskRunner_def
        upd_runner_def)
  have b: "closure_body (quitting 1 0) (ext two_posted) = ([1], [CallQuit 0])"
    by (simp add: two_posted_def PostDelayedTask_def fresh_world_def upd_runner_def quitting_def)
  have c: "CallQuit 0 \<in> set [CallQuit 0 :: (nat list) call]" by simp
  have d: "run_task 0 0 (quitting 1 0)
             (upd_runner 0 (\<lambda>q. q\<lparr>tasks := [marking 2]\<rparr>) two_posted) = Inr after_quitting"
    by (simp add: run_task_def two_posted_def PostDelayedTask_def fresh_world_def
        TestTaskRunner_def upd_runner_def quitting_def Quit_def DCHECK_def
        RunsTasksOnCurrentThread_def after_quitting_def)
  show ?thesis
    using a b c d C1_run_returns_right_after_quitting_task[OF a b c d] by simp
qed

text \<open>
  C9: \<^verbatim>\<open>Run()\<close> clears the flag on entry. A \<^verbatim>\<open>Quit()\<close> that succeeded before
  \<^verbatim>\<open>Run()\<close> is called changes nothing of what \<^verbatim>\<open>Run()\<close> does; and when \<^verbatim>\<open>Run()\<close>
  returns, the last task it ran was a task of this runner that called \<^verbatim>\<open>Quit()\<close> on
  this runner during this invocation.
\<close>

theorem C9_run_clears_quit_flag:
  "(Quit cur r w = Inr wq \<longrightarrow> Run cur r wq = Run cur r w)
   \<and> (Run cur r w = Some (Inr w') \<longrightarrow>
        (\<exists>es t cs. history w' = history w @ es @ [(r, t, cs)] \<and> CallQuit r \<in> set cs))"
proof (intro conjI impI)
  assume "Quit cur r w = Inr wq"
  then have "wq = upd_runner r (\<lambda>q. q\<lparr>quit_called := True\<rparr>) w"
    by (auto simp: Quit_def DCHECK_def split: if_splits)
  then have "upd_runner r (\<lambda>q. q\<lparr>quit_called := False\<rparr>) wq
        = upd_runner r (\<lambda>q. q\<lparr>quit_called := False\<rparr>) w"
    and "thread_id (runners wq r) = thread_id (runners w r)"
    by (simp_all add: upd_runner_def)
  then show "Run cur r wq = Run cur r w"
    by (simp add: Run_def RunsTasksOnCurrentThread_def cong: sum.case_cong)
next
  assume a: "Run cur r w = Some (Inr w')"
  let ?w0 = "upd_runner r (\<lambda>q. q\<lparr>quit_called := False\<rparr>) w"
  from a have l: "Run_loop cur r ?w0 = Some (Inr w')"
    by (auto simp: Run_def DCHECK_def split: if_splits)
  have "\<not> quit_called (runners ?w0 r)" "history ?w0 = history w"
    by (simp_all add: upd_runner_def)
  with Run_loop_returns[OF l] show
    "\<exists>es t cs. history w' = history w @ es @ [(r, t, cs)] \<and> CallQuit r \<in> set cs" by simp
qed


theorem C9_witness:
  "Quit 0 0 quit_in_the_middle
     = Inr (upd_runner 0 (\<lambda>q. q\<lparr>quit_called := True\<rparr>) quit_in_the_middle)
   \<and> quit_called (runners (upd_runner 0 (\<lambda>q. q\<lparr>quit_called := True\<rparr>) quit_in_the_middle) 0)
   \<and> tasks (runners (upd_runner 0 (\<lambda>q. q\<lparr>quit_called := True\<rparr>) quit_in_the_middle) 0)
       = [marking 1, quitting 2 0, marking 3]
   \<and> Run 0 0 (upd_runner 0 (\<lambda>q. q\<lparr>quit_called := True\<rparr>) quit_in_the_middle)
       = Run 0 0 quit_in_the_middle
   \<and> Run 0 0 (upd_runner 0 (\<lambda>q. q\<lparr>quit_called := True\<rparr>) quit_in_the_middle)
       = Some (Inr after_the_middle)
   \<and> ext after_the_middle = [1, 2]
   \<and> tasks (runners after_the_middle 0) = [marking 3]
   \<and> history after_the_middle
       = history (upd_runner 0 (\<lambda>q. q\<lparr>quit_called := True\<rparr>) quit_in_the_middle)
           @ [(0, marking 1, [])] @ [(0, quitting 2 0, [CallQuit 0])]
   \<and> CallQuit 0 \<in> set [CallQuit 0 :: (nat list) call]
   \<and> Quit 0 0 (fresh_world ([]::nat list))
       = Inr (upd_runner 0 (\<lambda>q. q\<lparr>quit_called := True\<rparr>) (fresh_world []))
   \<and> Run 0 0 (upd_runner 0 (\<lambda>q. q\<lparr>quit_called := True\<rparr>) (fresh_world ([]::nat list))) = None"
proof -
  let ?W = quit_in_the_middle
  let ?Q = "upd_runner 0 (\<lambda>q. q\<lparr>quit_called := True\<rparr>) ?W"
  have q: "Quit 0 0 ?W = Inr ?Q"
    by (simp add: Quit_def DCHECK_def RunsTasksOnCurrentThread_def quit_in_the_middle_def
        PostDelayedTask_def fresh_world_def TestTaskRunner_def upd_runner_def)
  have f: "quit_called (runners ?Q 0)"
    "tasks (runners ?Q 0) = [marking 1, quitting 2 0, marking 3]"
    by (simp_all add: quit_in_the_middle_def PostDelayedTask_def fresh_world_def
        TestTaskRunner_def upd_runner_def)
  have r: "Run 0 0 ?W = Some (Inr after_the_middle)"
    by (simp add: quit_in_the_middle_def after_the_middle_def PostDelayedTask_def fresh_world_def
        TestTaskRunner_def upd_runner_def Run_def DCHECK_def RunsTasksOnCurrentThread_def
        Run_loop.simps run_task_def marking_def quitting_def Quit_def)
  note c = C9_run_clears_quit_flag[where cur = 0 and r = 0 and w = ?W and wq = ?Q]
  from c q have same: "Run 0 0 ?Q = Run 0 0 ?W" by blast
  with r have rq: "Run 0 0 ?Q = Some (Inr after_the_middle)" by simp
  have a: "ext after_the_middle = [1, 2]" "tasks (runners after_the_middle 0) = [marking 3]"
    "history after_the_middle = history ?Q @ [(0, marking 1, [])] @ [(0, quitting 2 0, [CallQuit 0])]"
    "CallQuit 0 \<in> set [CallQuit 0 :: (nat list) call]"
    by (simp_all add: after_the_middle_def quit_in_the_middle_def PostDelayedTask_def
        fresh_world_def upd_runner_def)
  have q0: "Quit 0 0 (fresh_world ([]::nat list))
      = Inr (upd_runner 0 (\<lambda>q. q\<lparr>quit_called := True\<rparr>) (fresh_world []))"
    by (simp add: Quit_def DCHECK_def RunsTasksOnCurrentThread_def fresh_world_def TestTaskRunner_def)
  have "Run 0 0 (fresh_world ([]::nat list)) = None"
    by (simp add: Run_def DCHECK_def RunsTasksOnCurrentThread_def fresh_world_def TestTaskRunner_def
        upd_runner_def Run_loop.simps Wait_def)
  with q0 C9_run_clears_quit_flag[of 0 0 "fresh_world ([]::nat list)"]
  have n: "Run 0 0 (upd_runner 0 (\<lambda>q. q\<lparr>quit_called := True\<rparr>) (fresh_world ([]::nat list))) = None"
    by simp
  from q f same rq a q0 n show ?thesis by blast
qed

section \<open>First in, first out\<close>





section \<open>Facts about the endpoints\<close>

lemma do_call_ok:
  "call_ok cur w c \<Longrightarrow> \<exists>w'. do_call cur c w = Inr w'"
  by (cases c) (auto simp: Quit_def DCHECK_def RunsTasksOnCurrentThread_def)

lemma call_ok_thread:
  "(\<And>q. thread_id (runners w' q) = thread_id (runners w q)) \<Longrightarrow> call_ok cur w' c = call_ok cur w c"
  by (cases c) auto

lemma do_calls_ok:
  "\<forall>c\<in>set cs. call_ok cur w c \<Longrightarrow> \<exists>w'. do_calls cur cs w = Inr w'"
proof (induction cs arbitrary: w)
  case Nil
  then show ?case by simp
next
  case (Cons c cs)
  then obtain w1 where 1: "do_call cur c w = Inr w1"
    using do_call_ok[of cur w c] by auto
  have "\<And>q. thread_id (runners w1 q) = thread_id (runners w q)"
    using do_call_frame[OF 1] by simp
  then have "\<forall>c\<in>set cs. call_ok cur w1 c"
    using Cons.prems call_ok_thread[of w1 w cur] by simp
  from Cons.IH[OF this] 1 show ?case by simp
qed

lemma RunOneTask_empty:
  "tasks (runners w r) = [] \<Longrightarrow> thread_id (runners w r) = cur \<Longrightarrow> RunOneTask cur r w = None"
  using RunOneTask_loop_nonempty[of cur r w]
  by (cases "RunOneTask_loop cur r w")
     (auto simp: RunOneTask_def DCHECK_def RunsTasksOnCurrentThread_def)

lemma RunOneTask_front:
  assumes "thread_id (runners w r) = cur"
    and "tasks (runners w r) = t # rest"
    and "closure_body t (ext w) = (x', cs)"
    and "\<forall>c\<in>set cs. call_ok cur w c"
  obtains w' where "RunOneTask cur r w = Some (Inr w')"
    and "ext w' = x'"
    and "history w' = history w @ [(r, t, cs)]"
    and "\<And>q. tasks (runners w' q) = (if q = r then rest else tasks (runners w q)) @ posted_to q cs"
    and "\<And>q. thread_id (runners w' q) = thread_id (runners w q)"
    and "\<And>q. quit_called (runners w' q) = (quit_called (runners w q) \<or> CallQuit q \<in> set cs)"
proof -
  let ?p = "upd_runner r (\<lambda>q. q\<lparr>tasks := rest\<rparr>) w"
  let ?s = "?p\<lparr>ext := x', history := history ?p @ [(r, t, cs)]\<rparr>"
  have th: "\<And>q. thread_id (runners ?s q) = thread_id (runners w q)"
    by (simp add: upd_runner_def)
  then have "\<forall>c\<in>set cs. call_ok cur ?s c"
    using assms(4) call_ok_thread[of ?s w cur] by simp
  from do_calls_ok[OF this] obtain w' where d: "do_calls cur cs ?s = Inr w'" by blast
  have b: "closure_body t (ext ?p) = (x', cs)"
    using assms(3) by (simp add: upd_runner_def)
  with d have rt: "run_task cur r t ?p = Inr w'"
    by (simp add: run_task_def)
  have ret: "RunOneTask cur r w = Some (Inr w')"
    using assms(1,2) rt
    by (simp add: RunOneTask_def DCHECK_def RunsTasksOnCurrentThread_def
        RunOneTask_loop.simps[of cur r w])
  show thesis
  proof (rule that[OF ret])
    show "ext w' = x'" using run_task_effect(1)[OF rt b] .
    show "history w' = history w @ [(r, t, cs)]"
      using run_task_effect(2)[OF rt b] by (simp add: upd_runner_def)
    show "tasks (runners w' q) = (if q = r then rest else tasks (runners w q)) @ posted_to q cs" for q
      using run_task_effect(3)[OF rt b, of q] by (simp add: upd_runner_def)
    show "thread_id (runners w' q) = thread_id (runners w q)" for q
      using run_task_effect(5)[OF rt b, of q] by (simp add: upd_runner_def)
    show "quit_called (runners w' q) = (quit_called (runners w q) \<or> CallQuit q \<in> set cs)" for q
      using run_task_effect(4)[OF rt b, of q] by (simp add: upd_runner_def)
  qed
qed

lemma PostDelayedTask_proj:
  "tasks (runners (fst (PostDelayedTask r t d w)) q) = tasks (runners w q) @ (if q = r then [t] else [])"
  "thread_id (runners (fst (PostDelayedTask r t d w)) q) = thread_id (runners w q)"
  "quit_called (runners (fst (PostDelayedTask r t d w)) q) = quit_called (runners w q)"
  "ext (fst (PostDelayedTask r t d w)) = ext w"
  "history (fst (PostDelayedTask r t d w)) = history w"
  by (simp_all add: PostDelayedTask_def upd_runner_def)

lemma posted_to_quits [simp]: "posted_to q (quits rs) = []"
  by (induction rs rule: quits.induct) simp_all

lemma other_other [simp]: "other (other s) = s"
  by (cases s) simp_all

lemma map_of_snoc_fresh:
  "n \<notin> fst ` set xs \<Longrightarrow> map_of (xs @ [(n, c)]) n = Some c"
  by (induction xs) auto

lemma filter_snoc_fresh:
  "n \<notin> fst ` set xs \<Longrightarrow> filter (\<lambda>p. fst p \<noteq> n) (xs @ [(n, c)]) = xs"
  by (induction xs) auto

lemma round_trip:
  fixes w :: "mojo world" and c :: "int32 \<Rightarrow> reaction list" and i :: nat and s :: side
  defines "m \<equiv> ext w"
  defines "n \<equiv> next_id (ext w) (Associated i s)"
  assumes opn: "phase m (Associated i s) = Open" "phase m (Associated i (other s)) = Open"
      "phase m (Master s) = Open" "phase m (Master (other s)) = Open"
    and quiet: "quiet_on [executor m (Master (other s)), executor m (Associated i (other s)),
                          executor m (Master s), executor m (Associated i s)] cur w"
    and echoes: "\<And>cb x. Echo (impl (Associated i (other s))) v cb x
                    = cb v (x\<lparr>observed := observed x @ pre\<rparr>)"
    and fresh: "n \<notin> fst ` set (pending m (Associated i s))"
    and cok: "\<forall>q\<in>set (quits (c v)). call_ok cur w q"
  obtains w1 w2 w3 w4 w5 where
      "Call impl (Associated i s) v (Some c) w = Inr w1"
      "RunOneTask cur (executor m (Master (other s))) w1 = Some (Inr w2)"
      "RunOneTask cur (executor m (Associated i (other s))) w2 = Some (Inr w3)"
      "RunOneTask cur (executor m (Master s)) w3 = Some (Inr w4)"
      "RunOneTask cur (executor m (Associated i s)) w4 = Some (Inr w5)"
      "observed (ext w1) = observed m" "observed (ext w2) = observed m"
      "observed (ext w3) = observed m @ pre" "observed (ext w4) = observed m @ pre"
      "ext w5 = m\<lparr>next_id := (next_id m)((Associated i s) := Suc n),
                 observed := observed m @ pre @ observations (c v)\<rparr>"
      "\<And>q. tasks (runners w1 q) = tasks (runners w q)
               @ (if q = executor m (Master (other s))
                  then [request_arrives impl (Associated i (other s)) n v] else [])"
      "\<And>q. tasks (runners w2 q) = tasks (runners w q)
               @ (if q = executor m (Associated i (other s))
                  then [request_delivery impl (Associated i (other s)) n v] else [])"
      "\<And>q. tasks (runners w3 q) = tasks (runners w q)
               @ (if q = executor m (Master s) then [reply_arrives (Associated i s) n v] else [])"
      "\<And>q. tasks (runners w4 q) = tasks (runners w q)
               @ (if q = executor m (Associated i s) then [reply_delivery (Associated i s) n v] else [])"
      "\<And>q. tasks (runners w5 q) = tasks (runners w q)"
      "\<And>q. thread_id (runners w5 q) = thread_id (runners w q)"
      "\<And>q. thread_id (runners w1 q) = thread_id (runners w q)"
      "\<And>q. thread_id (runners w3 q) = thread_id (runners w q)"
      "map fst (history w5) = map fst (history w)
          @ [executor m (Master (other s)), executor m (Associated i (other s)),
             executor m (Master s), executor m (Associated i s)]"
proof -
  let ?A = "Associated i s" and ?A' = "Associated i (other s)"
  let ?M = "Master s" and ?M' = "Master (other s)"
  let ?E = "executor m"
  let ?m1 = "m\<lparr>next_id := (next_id m)(?A := Suc n),
               pending := (pending m)(?A := pending m ?A @ [(n, c)])\<rparr>"
  let ?m2 = "?m1\<lparr>observed := observed m @ pre\<rparr>"
  let ?m3 = "m\<lparr>next_id := (next_id m)(?A := Suc n),
               observed := observed m @ pre @ observations (c v)\<rparr>"
  let ?t1 = "request_arrives impl ?A' n v" and ?t2 = "request_delivery impl ?A' n v"
  let ?t3 = "reply_arrives ?A n v" and ?t4 = "reply_delivery ?A n v"
  from quiet have q0: "tasks (runners w (?E ?M')) = []" "tasks (runners w (?E ?A')) = []"
      "tasks (runners w (?E ?M)) = []" "tasks (runners w (?E ?A)) = []"
    and o0: "thread_id (runners w (?E ?M')) = cur" "thread_id (runners w (?E ?A')) = cur"
      "thread_id (runners w (?E ?M)) = cur" "thread_id (runners w (?E ?A)) = cur"
    by (simp_all add: quiet_on_def)
  \<comment> \<open>the call\<close>
  define w1 where "w1 = fst (PostDelayedTask (?E ?M') ?t1 0 (w\<lparr>ext := ?m1\<rparr>))"
  have c1: "Call impl ?A v (Some c) w = Inr w1"
    using opn(1) by (simp add: Call_def Let_def w1_def m_def n_def)
  have e1: "ext w1 = ?m1" by (simp add: w1_def PostDelayedTask_proj)
  have h1: "history w1 = history w" by (simp add: w1_def PostDelayedTask_proj)
  have t1: "tasks (runners w1 q) = tasks (runners w q) @ (if q = ?E ?M' then [?t1] else [])" for q
    by (simp add: w1_def PostDelayedTask_proj)
  have i1: "thread_id (runners w1 q) = thread_id (runners w q)" for q
    by (simp add: w1_def PostDelayedTask_proj)
  \<comment> \<open>first hop of the request\<close>
  have b1: "closure_body ?t1 (ext w1) = (?m1, [CallPostDelayedTask (?E ?A') ?t2 0])"
    using opn(4) by (simp add: e1 request_arrives_def)
  obtain w2 where r2: "RunOneTask cur (?E ?M') w1 = Some (Inr w2)"
    and e2: "ext w2 = ?m1"
    and h2: "history w2 = history w1 @ [(?E ?M', ?t1, [CallPostDelayedTask (?E ?A') ?t2 0])]"
    and t2': "\<And>q. tasks (runners w2 q) = (if q = ?E ?M' then [] else tasks (runners w1 q))
                 @ posted_to q [CallPostDelayedTask (?E ?A') ?t2 0]"
    and i2: "\<And>q. thread_id (runners w2 q) = thread_id (runners w1 q)"
    by (rule RunOneTask_front[of w1 "?E ?M'" cur ?t1 "[]" ?m1 "[CallPostDelayedTask (?E ?A') ?t2 0]"])
       (use o0 q0 t1 i1 b1 in simp_all)
  have t2: "tasks (runners w2 q) = tasks (runners w q) @ (if q = ?E ?A' then [?t2] else [])" for q
    using t2'[of q] t1[of q] q0 by auto
  \<comment> \<open>second hop of the request: the handler runs\<close>
  let ?cs3 = "[CallPostDelayedTask (?E ?M) ?t3 0]"
  have b2: "closure_body ?t2 (ext w2) = (?m2, ?cs3)"
    using opn(2) by (simp add: e2 request_delivery_def echoes send_reply_def)
  obtain w3 where r3: "RunOneTask cur (?E ?A') w2 = Some (Inr w3)"
    and e3: "ext w3 = ?m2"
    and h3: "history w3 = history w2 @ [(?E ?A', ?t2, ?cs3)]"
    and t3': "\<And>q. tasks (runners w3 q) = (if q = ?E ?A' then [] else tasks (runners w2 q))
                 @ posted_to q ?cs3"
    and i3: "\<And>q. thread_id (runners w3 q) = thread_id (runners w2 q)"
    by (rule RunOneTask_front[of w2 "?E ?A'" cur ?t2 "[]" ?m2 ?cs3])
       (use o0 q0 t2 i1 i2 b2 in simp_all)
  have t3: "tasks (runners w3 q) = tasks (runners w q) @ (if q = ?E ?M then [?t3] else [])" for q
    using t3'[of q] t2[of q] q0 by auto
  \<comment> \<open>first hop of the reply\<close>
  let ?cs4 = "[CallPostDelayedTask (?E ?A) ?t4 0]"
  have b3: "closure_body ?t3 (ext w3) = (?m2, ?cs4)"
    using opn(3) by (simp add: e3 reply_arrives_def)
  obtain w4 where r4: "RunOneTask cur (?E ?M) w3 = Some (Inr w4)"
    and e4: "ext w4 = ?m2"
    and h4: "history w4 = history w3 @ [(?E ?M, ?t3, ?cs4)]"
    and t4': "\<And>q. tasks (runners w4 q) = (if q = ?E ?M then [] else tasks (runners w3 q))
                 @ posted_to q ?cs4"
    and i4: "\<And>q. thread_id (runners w4 q) = thread_id (runners w3 q)"
    by (rule RunOneTask_front[of w3 "?E ?M" cur ?t3 "[]" ?m2 ?cs4])
       (use o0 q0 t3 i1 i2 i3 b3 in simp_all)
  have t4: "tasks (runners w4 q) = tasks (runners w q) @ (if q = ?E ?A then [?t4] else [])" for q
    using t4'[of q] t3[of q] q0 by auto
  \<comment> \<open>second hop of the reply: the callback runs\<close>
  have b4: "closure_body ?t4 (ext w4) = (?m3, quits (c v))"
    using map_of_snoc_fresh[OF fresh, of c] filter_snoc_fresh[OF fresh, of c]
    by (simp add: e4 reply_delivery_def react_def del: map_of_append)
  have ok4: "\<forall>q\<in>set (quits (c v)). call_ok cur w4 q"
    using cok call_ok_thread[of w4 w cur] i1 i2 i3 i4 by simp
  obtain w5 where r5: "RunOneTask cur (?E ?A) w4 = Some (Inr w5)"
    and e5: "ext w5 = ?m3"
    and h5: "history w5 = history w4 @ [(?E ?A, ?t4, quits (c v))]"
    and t5': "\<And>q. tasks (runners w5 q) = (if q = ?E ?A then [] else tasks (runners w4 q))
                 @ posted_to q (quits (c v))"
    and i5: "\<And>q. thread_id (runners w5 q) = thread_id (runners w4 q)"
    by (rule RunOneTask_front[of w4 "?E ?A" cur ?t4 "[]" ?m3 "quits (c v)"])
       (use o0 q0 t4 i1 i2 i3 i4 b4 ok4 in simp_all)
  have t5: "tasks (runners w5 q) = tasks (runners w q)" for q
    using t5'[of q] t4[of q] q0 by auto
  show thesis
  proof (rule that[OF c1 r2 r3 r4 r5])
    show "observed (ext w1) = observed m" by (simp add: e1)
    show "observed (ext w2) = observed m" by (simp add: e2)
    show "observed (ext w3) = observed m @ pre" by (simp add: e3)
    show "observed (ext w4) = observed m @ pre" by (simp add: e4)
    show "ext w5 = ?m3" by (rule e5)
    show "tasks (runners w1 q) = tasks (runners w q) @ (if q = ?E ?M' then [?t1] else [])" for q
      by (rule t1)
    show "tasks (runners w2 q) = tasks (runners w q) @ (if q = ?E ?A' then [?t2] else [])" for q
      by (rule t2)
    show "tasks (runners w3 q) = tasks (runners w q) @ (if q = ?E ?M then [?t3] else [])" for q
      by (rule t3)
    show "tasks (runners w4 q) = tasks (runners w q) @ (if q = ?E ?A then [?t4] else [])" for q
      by (rule t4)
    show "tasks (runners w5 q) = tasks (runners w q)" for q by (rule t5)
    show "thread_id (runners w5 q) = thread_id (runners w q)" for q
      by (simp add: i1 i2 i3 i4 i5)
    show "thread_id (runners w1 q) = thread_id (runners w q)" for q
      by (rule i1)
    show "thread_id (runners w3 q) = thread_id (runners w q)" for q
      by (simp add: i1 i2 i3)
    show "map fst (history w5) = map fst (history w) @ [?E ?M', ?E ?A', ?E ?M, ?E ?A]"
      by (simp add: h1 h2 h3 h4 h5)
  qed
qed

lemma close_all_effect:
  "distinct xs \<Longrightarrow>
   close_all xs m =
     (m\<lparr>phase := (\<lambda>y. if y \<in> set xs \<and> phase m y = Open then Closing else phase m y),
        pending := (\<lambda>y. if y \<in> set xs \<and> phase m y = Open then [] else pending m y)\<rparr>,
      map (\<lambda>y. CallPostDelayedTask (executor m y) (error_task y) 0)
        (filter (\<lambda>y. phase m y = Open) xs))"
proof (induction xs arbitrary: m)
  case Nil
  show ?case by simp
next
  case (Cons x xs)
  then have d: "distinct xs" and nx: "x \<notin> set xs" by simp_all
  show ?case
  proof (cases "phase m x = Open")
    case False
    have "(\<lambda>y. if (y = x \<or> y \<in> set xs) \<and> phase m y = Open then Closing else phase m y)
        = (\<lambda>y. if y \<in> set xs \<and> phase m y = Open then Closing else phase m y)"
      using False by auto
    moreover have "(\<lambda>y. if (y = x \<or> y \<in> set xs) \<and> phase m y = Open then [] else pending m y)
        = (\<lambda>y. if y \<in> set xs \<and> phase m y = Open then [] else pending m y)"
      using False by auto
    ultimately show ?thesis
      using False Cons.IH[OF d, of m] by (simp add: close_one_def)
  next
    case True
    let ?m1 = "m\<lparr>phase := (phase m)(x := Closing), pending := (pending m)(x := [])\<rparr>"
    have f: "filter (\<lambda>y. phase ?m1 y = Open) xs = filter (\<lambda>y. phase m y = Open) xs"
      using nx by (intro filter_cong) auto
    have p: "(\<lambda>y. if y \<in> set xs \<and> phase ?m1 y = Open then Closing else phase ?m1 y)
        = (\<lambda>y. if (y = x \<or> y \<in> set xs) \<and> phase m y = Open then Closing else phase m y)"
      using True nx by auto
    have q: "(\<lambda>y. if y \<in> set xs \<and> phase ?m1 y = Open then [] else pending ?m1 y)
        = (\<lambda>y. if (y = x \<or> y \<in> set xs) \<and> phase m y = Open then [] else pending m y)"
      using True nx by auto
    show ?thesis
      using True Cons.IH[OF d, of ?m1] f p q by (simp add: close_one_def)
  qed
qed

lemma filter_own:
  "distinct xs \<Longrightarrow> inj_on f (set xs) \<Longrightarrow> x \<in> set xs \<Longrightarrow> filter (\<lambda>y. f y = f x) xs = [x]"
proof (induction xs)
  case Nil
  then show ?case by simp
next
  case (Cons a xs)
  show ?case
  proof (cases "a = x")
    case True
    with Cons.prems have "\<forall>y\<in>set xs. f y \<noteq> f x" by (auto simp: inj_on_def)
    then have "filter (\<lambda>y. f y = f x) xs = []" by (simp add: filter_empty_conv)
    with True show ?thesis by simp
  next
    case False
    with Cons.prems have "x \<in> set xs" "f a \<noteq> f x" "distinct xs" "inj_on f (set xs)"
      by (auto simp: inj_on_def)
    with Cons.IH show ?thesis by simp
  qed
qed

lemma posted_to_error_tasks:
  "posted_to q (map (\<lambda>y. CallPostDelayedTask (f y) (error_task y) 0) xs)
     = map error_task (filter (\<lambda>y. f y = q) xs)"
  by (induction xs) simp_all

lemma posted_to_append: "posted_to q (cs @ ds) = posted_to q cs @ posted_to q ds"
  by (induction cs rule: posted_to.induct) simp_all

lemma perform_posts:
  assumes "eff (ext w) = (x', cs)" and "\<forall>c\<in>set cs. call_ok cur w c"
  obtains w' where "perform cur eff w = Inr w'" and "ext w' = x'" and "history w' = history w"
    and "\<And>q. tasks (runners w' q) = tasks (runners w q) @ posted_to q cs"
    and "\<And>q. thread_id (runners w' q) = thread_id (runners w q)"
proof -
  let ?s = "w\<lparr>ext := x'\<rparr>"
  have "\<And>q. thread_id (runners ?s q) = thread_id (runners w q)" by simp
  then have "\<forall>c\<in>set cs. call_ok cur ?s c"
    using assms(2) call_ok_thread[of ?s w cur] by simp
  from do_calls_ok[OF this] obtain w' where d: "do_calls cur cs ?s = Inr w'" by blast
  show thesis
  proof (rule that)
    show "perform cur eff w = Inr w'" using assms(1) d by (simp add: perform_def)
    show "ext w' = x'" using do_calls_frame[OF d] by simp
    show "history w' = history w" using do_calls_frame[OF d] by simp
    show "tasks (runners w' q) = tasks (runners w q) @ posted_to q cs" for q
      using do_calls_tasks[OF d, of q] by simp
    show "thread_id (runners w' q) = thread_id (runners w q)" for q
      using do_calls_frame[OF d, of q] by simp
  qed
qed

lemma posted_to_handler_quits [simp]: "posted_to q (handler_quits m x) = []"
  by (simp add: handler_quits_def split: option.splits)

lemma error_task_body:
  "phase m x = Closing \<Longrightarrow>
   closure_body (error_task x) m =
     (m\<lparr>phase := (phase m)(x := Closed), observed := observed m @ handler_observations m x\<rparr>,
      handler_quits m x)"
  by (simp add: error_task_def handler_observations_def handler_quits_def react_def
      split: option.splits)

lemma run_error_tasks:
  fixes w :: "mojo world"
  assumes "distinct xs" and "inj_on (executor (ext w)) (set xs)"
    and "\<forall>x\<in>set xs. tasks (runners w (executor (ext w) x)) = [error_task x]
            \<and> phase (ext w) x = Closing \<and> thread_id (runners w (executor (ext w) x)) = cur"
    and "\<forall>x\<in>set xs. \<forall>c\<in>set (handler_quits (ext w) x). call_ok cur w c"
  shows "\<exists>w'. run_each cur (map (executor (ext w)) xs) w = Some (Inr w')
      \<and> ext w' = (ext w)\<lparr>phase := (\<lambda>y. if y \<in> set xs then Closed else phase (ext w) y),
                          observed := observed (ext w) @ concat (map (handler_observations (ext w)) xs)\<rparr>
      \<and> (\<forall>q. tasks (runners w' q) = (if q \<in> executor (ext w) ` set xs then [] else tasks (runners w q)))
      \<and> (\<forall>q. thread_id (runners w' q) = thread_id (runners w q))
      \<and> history w' = history w
           @ map (\<lambda>x. (executor (ext w) x, error_task x, handler_quits (ext w) x)) xs"
  using assms
proof (induction xs arbitrary: w)
  case Nil
  show ?case by simp
next
  case (Cons x xs)
  let ?m = "ext w"
  let ?E = "executor ?m"
  let ?m1 = "?m\<lparr>phase := (phase ?m)(x := Closed),
                observed := observed ?m @ handler_observations ?m x\<rparr>"
  from Cons.prems have nx: "x \<notin> set xs" and d: "distinct xs"
    and inj: "inj_on ?E (set xs)" and ne: "\<forall>y\<in>set xs. ?E y \<noteq> ?E x"
    by (auto simp: inj_on_def)
  from Cons.prems(3) have fx: "tasks (runners w (?E x)) = [error_task x]"
    and px: "phase ?m x = Closing" and ox: "thread_id (runners w (?E x)) = cur"
    by simp_all
  from Cons.prems(4) have okx: "\<forall>c\<in>set (handler_quits ?m x). call_ok cur w c" by simp
  obtain w1 where r1: "RunOneTask cur (?E x) w = Some (Inr w1)"
    and e1: "ext w1 = ?m1"
    and h1: "history w1 = history w @ [(?E x, error_task x, handler_quits ?m x)]"
    and t1: "\<And>q. tasks (runners w1 q) = (if q = ?E x then [] else tasks (runners w q))
                 @ posted_to q (handler_quits ?m x)"
    and i1: "\<And>q. thread_id (runners w1 q) = thread_id (runners w q)"
    by (rule RunOneTask_front[OF ox fx error_task_body[OF px] okx]) blast
  have hq: "handler_quits ?m1 = handler_quits ?m" "handler_observations ?m1 = handler_observations ?m"
    by (simp_all add: fun_eq_iff handler_quits_def handler_observations_def)
  have a2: "inj_on (executor (ext w1)) (set xs)" using inj by (simp add: e1)
  have a3: "\<forall>y\<in>set xs. tasks (runners w1 (executor (ext w1) y)) = [error_task y]
            \<and> phase (ext w1) y = Closing \<and> thread_id (runners w1 (executor (ext w1) y)) = cur"
    using Cons.prems(3) ne nx by (auto simp: e1 t1 i1)
  have a4: "\<forall>y\<in>set xs. \<forall>c\<in>set (handler_quits (ext w1) y). call_ok cur w1 c"
    using Cons.prems(4) call_ok_thread[of w1 w cur] i1 by (simp add: e1 hq)
  from Cons.IH[OF d a2 a3 a4] obtain w' where
      r: "run_each cur (map (executor (ext w1)) xs) w1 = Some (Inr w')"
    and e: "ext w' = (ext w1)\<lparr>phase := (\<lambda>y. if y \<in> set xs then Closed else phase (ext w1) y),
              observed := observed (ext w1) @ concat (map (handler_observations (ext w1)) xs)\<rparr>"
    and t: "\<And>q. tasks (runners w' q)
              = (if q \<in> executor (ext w1) ` set xs then [] else tasks (runners w1 q))"
    and i: "\<And>q. thread_id (runners w' q) = thread_id (runners w1 q)"
    and h: "history w' = history w1
              @ map (\<lambda>x. (executor (ext w1) x, error_task x, handler_quits (ext w1) x)) xs"
    by blast
  have p: "(\<lambda>y. if y \<in> set xs then Closed else phase ?m1 y)
         = (\<lambda>y. if y \<in> set (x # xs) then Closed else phase ?m y)"
    by auto
  have "run_each cur (map ?E (x # xs)) w = Some (Inr w')"
    using r1 r by (simp add: e1)
  moreover have "ext w' = ?m\<lparr>phase := (\<lambda>y. if y \<in> set (x # xs) then Closed else phase ?m y),
                    observed := observed ?m @ concat (map (handler_observations ?m) (x # xs))\<rparr>"
  proof -
    have "ext w' = ?m1\<lparr>phase := (\<lambda>y. if y \<in> set xs then Closed else phase ?m1 y),
              observed := observed ?m1 @ concat (map (handler_observations ?m1) xs)\<rparr>"
      using e by (simp only: e1)
    then have "ext w' = ?m1\<lparr>phase := (\<lambda>y. if y \<in> set (x # xs) then Closed else phase ?m y),
              observed := observed ?m1 @ concat (map (handler_observations ?m) xs)\<rparr>"
      by (simp only: p hq)
    then show ?thesis by simp
  qed
  moreover have "\<forall>q. tasks (runners w' q)
       = (if q \<in> ?E ` set (x # xs) then [] else tasks (runners w q))"
    using t t1 by (auto simp: e1)
  moreover have "\<forall>q. thread_id (runners w' q) = thread_id (runners w q)"
    using i i1 by simp
  moreover have "history w' = history w
       @ map (\<lambda>x. (?E x, error_task x, handler_quits ?m x)) (x # xs)"
    using h h1 by (simp add: e1 hq)
  ultimately show ?case by blast
qed

lemma closed_with_side: "x \<in> set (closed_with e m) \<Longrightarrow> side_of x = side_of e"
  by (cases e) (auto simp: closed_with_def)

lemma side_of_peer: "side_of (peer e) = other (side_of e)"
  by (cases e) simp_all

lemma other_neq: "other s \<noteq> s"
  by (cases s) simp_all

lemma closed_with_disjoint:
  "x \<in> set (closed_with e m) \<Longrightarrow> x \<notin> set (closed_with (peer e) m')"
  using closed_with_side[of x e m] closed_with_side[of x "peer e" m'] side_of_peer[of e]
    other_neq[of "side_of e"]
  by auto

lemma closed_with_children:
  "children m' = children m \<Longrightarrow> closed_with e m' = closed_with e m"
  by (cases e) (simp_all add: closed_with_def)

lemma self_closed_with: "e \<in> set (closed_with e m)"
  by (cases e) (simp_all add: closed_with_def)

lemma teardown:
  fixes w :: "mojo world" and e :: endpoint
  defines "m \<equiv> ext w"
  defines "L \<equiv> closed_with e (ext w)" and "R \<equiv> closed_with (peer e) (ext w)"
  defines "P \<equiv> executor (ext w) (master_of (peer e))"
  assumes opn: "\<forall>x\<in>set L \<union> set R. phase m x = Open"
    and dist: "distinct L" "distinct R"
    and inj: "inj_on (executor m) (set L)" "inj_on (executor m) (set R)"
    and sep: "P \<notin> executor m ` set L"
    and quiet: "quiet_on (P # map (executor m) L @ map (executor m) R) cur w"
    and ok: "\<forall>x\<in>set L \<union> set R. \<forall>c\<in>set (handler_quits m x). call_ok cur w c"
  obtains w1 w2 w3 w4 where
      "perform cur (Close e) w = Inr w1"
      "run_each cur (map (executor m) L) w1 = Some (Inr w2)"
      "RunOneTask cur P w2 = Some (Inr w3)"
      "run_each cur (map (executor m) R) w3 = Some (Inr w4)"
      "ext w1 = m\<lparr>phase := (\<lambda>y. if y \<in> set L then Closing else phase m y),
                 pending := (\<lambda>y. if y \<in> set L then [] else pending m y)\<rparr>"
      "observed (ext w2) = observed m @ concat (map (handler_observations m) L)"
      "observed (ext w3) = observed m @ concat (map (handler_observations m) L)"
      "ext w4 = m\<lparr>phase := (\<lambda>y. if y \<in> set L \<union> set R then Closed else phase m y),
                 pending := (\<lambda>y. if y \<in> set L \<union> set R then [] else pending m y),
                 observed := observed m @ concat (map (handler_observations m) L)
                               @ concat (map (handler_observations m) R)\<rparr>"
      "\<And>q. tasks (runners w4 q) = tasks (runners w q)"
      "\<And>q. thread_id (runners w4 q) = thread_id (runners w q)"
      "map (\<lambda>h. (fst h, fst (snd h))) (history w4) = map (\<lambda>h. (fst h, fst (snd h))) (history w)
          @ map (\<lambda>x. (executor m x, error_task x)) L
          @ [(P, peer_closed_arrives (peer e))]
          @ map (\<lambda>x. (executor m x, error_task x)) R"
proof -
  let ?E = "executor m"
  let ?pc = "peer_closed_arrives (peer e)"
  from quiet have qP: "tasks (runners w P) = []" and oP: "thread_id (runners w P) = cur"
    and qL: "\<forall>x\<in>set L. tasks (runners w (?E x)) = [] \<and> thread_id (runners w (?E x)) = cur"
    and qR: "\<forall>x\<in>set R. tasks (runners w (?E x)) = [] \<and> thread_id (runners w (?E x)) = cur"
    by (auto simp: quiet_on_def list_all_iff)
  have eL: "e \<in> set L" by (simp add: L_def self_closed_with)
  with opn have oe: "phase m e = Open" by simp
  have LR: "\<forall>x\<in>set L. x \<notin> set R" "\<forall>x\<in>set R. x \<notin> set L"
    using closed_with_disjoint[of _ e "ext w" "ext w"] by (auto simp: L_def R_def)
  \<comment> \<open>the close\<close>
  let ?m1 = "m\<lparr>phase := (\<lambda>y. if y \<in> set L then Closing else phase m y),
               pending := (\<lambda>y. if y \<in> set L then [] else pending m y)\<rparr>"
  let ?cs1 = "map (\<lambda>y. CallPostDelayedTask (?E y) (error_task y) 0) L
                @ [CallPostDelayedTask P ?pc 0]"
  have fL: "filter (\<lambda>y. phase m y = Open) L = L" using opn by (simp add: filter_id_conv)
  have pL: "(\<lambda>y. if y \<in> set L \<and> phase m y = Open then Closing else phase m y)
          = (\<lambda>y. if y \<in> set L then Closing else phase m y)"
       "(\<lambda>y. if y \<in> set L \<and> phase m y = Open then [] else pending m y)
          = (\<lambda>y. if y \<in> set L then [] else pending m y)"
    using opn by auto
  have "close_all L m = (?m1, map (\<lambda>y. CallPostDelayedTask (?E y) (error_task y) 0) L)"
    using close_all_effect[OF dist(1), of m] by (simp only: fL pL)
  then have cl: "Close e (ext w) = (?m1, ?cs1)"
    using oe by (simp add: Close_def m_def L_def P_def)
  have ok1: "\<forall>c\<in>set ?cs1. call_ok cur w c" by auto
  obtain w1 where p1: "perform cur (Close e) w = Inr w1"
    and e1: "ext w1 = ?m1" and h1: "history w1 = history w"
    and t1: "\<And>q. tasks (runners w1 q) = tasks (runners w q) @ posted_to q ?cs1"
    and i1: "\<And>q. thread_id (runners w1 q) = thread_id (runners w q)"
    by (rule perform_posts[of "Close e" w ?m1 ?cs1 cur, OF cl ok1]) blast
  have t1L: "tasks (runners w1 (?E x)) = [error_task x]" if "x \<in> set L" for x
  proof -
    from that sep have "?E x \<noteq> P" by auto
    then show ?thesis
      using t1[of "?E x"] qL that filter_own[OF dist(1) inj(1) that]
      by (simp add: posted_to_append posted_to_error_tasks)
  qed
  have t1P: "tasks (runners w1 P) = [?pc]"
  proof -
    from sep have "filter (\<lambda>y. ?E y = P) L = []" by (auto simp: filter_empty_conv)
    then show ?thesis
      using t1[of P] qP by (simp add: posted_to_append posted_to_error_tasks)
  qed
  have t1o: "tasks (runners w1 q) = tasks (runners w q)" if "q \<noteq> P" "q \<notin> ?E ` set L" for q
  proof -
    from that have "filter (\<lambda>y. ?E y = q) L = []" by (auto simp: filter_empty_conv)
    then show ?thesis
      using t1[of q] that by (simp add: posted_to_append posted_to_error_tasks)
  qed
  \<comment> \<open>the connection-error tasks of the closing side\<close>
  have x1: "executor (ext w1) = ?E" "handler_quits (ext w1) = handler_quits m"
    "handler_observations (ext w1) = handler_observations m" "children (ext w1) = children m"
    by (simp_all add: e1 fun_eq_iff handler_quits_def handler_observations_def)
  have b2: "\<forall>x\<in>set L. tasks (runners w1 (executor (ext w1) x)) = [error_task x]
            \<and> phase (ext w1) x = Closing \<and> thread_id (runners w1 (executor (ext w1) x)) = cur"
    using t1L qL by (simp add: x1 i1) (simp add: e1)
  have b3: "\<forall>x\<in>set L. \<forall>c\<in>set (handler_quits (ext w1) x). call_ok cur w1 c"
    using ok call_ok_thread[of w1 w cur] i1 by (auto simp: x1)
  have b1: "inj_on (executor (ext w1)) (set L)" using inj(1) by (simp add: x1)
  from run_error_tasks[OF dist(1) b1 b2 b3] obtain w2 where
      r2: "run_each cur (map ?E L) w1 = Some (Inr w2)"
    and e2': "ext w2 = (ext w1)\<lparr>phase := (\<lambda>y. if y \<in> set L then Closed else phase (ext w1) y),
                observed := observed (ext w1) @ concat (map (handler_observations m) L)\<rparr>"
    and t2: "\<And>q. tasks (runners w2 q) = (if q \<in> ?E ` set L then [] else tasks (runners w1 q))"
    and i2: "\<And>q. thread_id (runners w2 q) = thread_id (runners w1 q)"
    and h2: "history w2 = history w1 @ map (\<lambda>x. (?E x, error_task x, handler_quits m x)) L"
    unfolding x1 by blast
  let ?m2 = "m\<lparr>phase := (\<lambda>y. if y \<in> set L then Closed else phase m y),
               pending := (\<lambda>y. if y \<in> set L then [] else pending m y),
               observed := observed m @ concat (map (handler_observations m) L)\<rparr>"
  have e2: "ext w2 = ?m2"
  proof -
    have "ext w2 = ?m1\<lparr>phase := (\<lambda>y. if y \<in> set L then Closed else phase ?m1 y),
                observed := observed ?m1 @ concat (map (handler_observations m) L)\<rparr>"
      using e2' by (simp only: e1)
    moreover have "(\<lambda>y. if y \<in> set L then Closed else phase ?m1 y)
        = (\<lambda>y. if y \<in> set L then Closed else phase m y)" by auto
    ultimately show ?thesis by simp
  qed
  \<comment> \<open>the other side learns of the close\<close>
  let ?m3 = "?m2\<lparr>phase := (\<lambda>y. if y \<in> set R then Closing else phase ?m2 y),
               pending := (\<lambda>y. if y \<in> set R then [] else pending ?m2 y)\<rparr>"
  let ?cs3 = "map (\<lambda>y. CallPostDelayedTask (?E y) (error_task y) 0) R"
  have oR: "\<forall>y\<in>set R. phase ?m2 y = Open" using opn LR by auto
  have fR: "filter (\<lambda>y. phase ?m2 y = Open) R = R" using oR by (simp add: filter_id_conv)
  have pR: "(\<lambda>y. if y \<in> set R \<and> phase ?m2 y = Open then Closing else phase ?m2 y)
          = (\<lambda>y. if y \<in> set R then Closing else phase ?m2 y)"
       "(\<lambda>y. if y \<in> set R \<and> phase ?m2 y = Open then [] else pending ?m2 y)
          = (\<lambda>y. if y \<in> set R then [] else pending ?m2 y)"
    using oR by auto
  have "close_all R ?m2 = (?m3, map (\<lambda>y. CallPostDelayedTask (executor ?m2 y) (error_task y) 0) R)"
    using close_all_effect[OF dist(2), of ?m2] by (simp only: fR pR)
  moreover have "closed_with (peer e) (ext w2) = R"
    unfolding R_def by (rule closed_with_children) (simp add: e2 m_def)
  ultimately have b: "closure_body ?pc (ext w2) = (?m3, ?cs3)"
    by (simp add: peer_closed_arrives_def e2)
  have t2P: "tasks (runners w2 P) = [?pc]" using t2[of P] t1P sep by simp
  have o2P: "thread_id (runners w2 P) = cur" using oP by (simp add: i1 i2)
  have ok3: "\<forall>c\<in>set ?cs3. call_ok cur w2 c" by auto
  obtain w3 where r3: "RunOneTask cur P w2 = Some (Inr w3)"
    and e3: "ext w3 = ?m3"
    and h3: "history w3 = history w2 @ [(P, ?pc, ?cs3)]"
    and t3: "\<And>q. tasks (runners w3 q) = (if q = P then [] else tasks (runners w2 q))
                 @ posted_to q ?cs3"
    and i3: "\<And>q. thread_id (runners w3 q) = thread_id (runners w2 q)"
    by (rule RunOneTask_front[OF o2P t2P b ok3]) blast
  have t2e: "tasks (runners w2 q) = (if q = P then [?pc] else tasks (runners w q))" for q
  proof (cases "q = P")
    case True
    with t2P show ?thesis by simp
  next
    case False
    show ?thesis
    proof (cases "q \<in> ?E ` set L")
      case True
      with qL have "tasks (runners w q) = []" by auto
      with True False show ?thesis using t2[of q] by simp
    next
      case F: False
      from t1o[OF False F] False F show ?thesis using t2[of q] by simp
    qed
  qed
  have t3R: "tasks (runners w3 (?E x)) = [error_task x]" if "x \<in> set R" for x
    using t3[of "?E x"] t2e[of "?E x"] qR that filter_own[OF dist(2) inj(2) that]
    by (simp add: posted_to_error_tasks)
  \<comment> \<open>the connection-error tasks of the other side\<close>
  have x3: "executor (ext w3) = ?E" "handler_quits (ext w3) = handler_quits m"
    "handler_observations (ext w3) = handler_observations m"
    by (simp_all add: e3 fun_eq_iff handler_quits_def handler_observations_def)
  have c1: "inj_on (executor (ext w3)) (set R)" using inj(2) by (simp add: x3)
  have c2: "\<forall>x\<in>set R. tasks (runners w3 (executor (ext w3) x)) = [error_task x]
            \<and> phase (ext w3) x = Closing \<and> thread_id (runners w3 (executor (ext w3) x)) = cur"
    using t3R qR by (simp add: x3 i1 i2 i3) (simp add: e3)
  have c3: "\<forall>x\<in>set R. \<forall>c\<in>set (handler_quits (ext w3) x). call_ok cur w3 c"
    using ok call_ok_thread[of w3 w cur] i1 i2 i3 by (auto simp: x3)
  from run_error_tasks[OF dist(2) c1 c2 c3] obtain w4 where
      r4: "run_each cur (map ?E R) w3 = Some (Inr w4)"
    and e4': "ext w4 = (ext w3)\<lparr>phase := (\<lambda>y. if y \<in> set R then Closed else phase (ext w3) y),
                observed := observed (ext w3) @ concat (map (handler_observations m) R)\<rparr>"
    and t4: "\<And>q. tasks (runners w4 q) = (if q \<in> ?E ` set R then [] else tasks (runners w3 q))"
    and i4: "\<And>q. thread_id (runners w4 q) = thread_id (runners w3 q)"
    and h4: "history w4 = history w3 @ map (\<lambda>x. (?E x, error_task x, handler_quits m x)) R"
    unfolding x3 by blast
  let ?m4 = "m\<lparr>phase := (\<lambda>y. if y \<in> set L \<union> set R then Closed else phase m y),
               pending := (\<lambda>y. if y \<in> set L \<union> set R then [] else pending m y),
               observed := observed m @ concat (map (handler_observations m) L)
                             @ concat (map (handler_observations m) R)\<rparr>"
  have e4: "ext w4 = ?m4"
  proof -
    have "ext w4 = ?m3\<lparr>phase := (\<lambda>y. if y \<in> set R then Closed else phase ?m3 y),
                observed := observed ?m3 @ concat (map (handler_observations m) R)\<rparr>"
      using e4' by (simp only: e3)
    moreover have "(\<lambda>y. if y \<in> set R then Closed else phase ?m3 y)
        = (\<lambda>y. if y \<in> set L \<union> set R then Closed else phase m y)" by auto
    moreover have "pending ?m3 = (\<lambda>y. if y \<in> set L \<union> set R then [] else pending m y)"
      by auto
    ultimately show ?thesis by simp
  qed
  have t4e: "tasks (runners w4 q) = tasks (runners w q)" for q
  proof (cases "q \<in> ?E ` set R")
    case True
    with qR have "tasks (runners w q) = []" by auto
    with True show ?thesis using t4[of q] by simp
  next
    case False
    then have "filter (\<lambda>y. ?E y = q) R = []" by (auto simp: filter_empty_conv)
    with False show ?thesis
      using t4[of q] t3[of q] t2e[of q] qP by (simp add: posted_to_error_tasks)
  qed
  show thesis
  proof (rule that[OF p1 r2 r3 r4])
    show "ext w1 = ?m1" by (rule e1)
    show "observed (ext w2) = observed m @ concat (map (handler_observations m) L)"
      by (simp add: e2)
    show "observed (ext w3) = observed m @ concat (map (handler_observations m) L)"
      by (simp add: e3)
    show "ext w4 = ?m4" by (rule e4)
    show "tasks (runners w4 q) = tasks (runners w q)" for q by (rule t4e)
    show "thread_id (runners w4 q) = thread_id (runners w q)" for q
      by (simp add: i1 i2 i3 i4)
    show "map (\<lambda>h. (fst h, fst (snd h))) (history w4) = map (\<lambda>h. (fst h, fst (snd h))) (history w)
          @ map (\<lambda>x. (?E x, error_task x)) L @ [(P, ?pc)] @ map (\<lambda>x. (?E x, error_task x)) R"
      by (simp add: h1 h2 h3 h4 comp_def)
  qed
qed

lemma run_each_single:
  "run_each cur [r] w = Some (Inr w') \<longleftrightarrow> RunOneTask cur r w = Some (Inr w')"
proof (cases "RunOneTask cur r w")
  case None
  then show ?thesis by simp
next
  case (Some y)
  then show ?thesis by (cases y) simp_all
qed

lemma Echo_test_handler:
  "echo_handler impl = Some test_echo_handler \<Longrightarrow>
   Echo impl v cb x = cb v (x\<lparr>observed := observed x @ [EchoCalled v]\<rparr>)"
  by (simp add: Echo_def test_echo_handler_def)

lemma Echo_null_handler:
  "echo_handler impl = None \<Longrightarrow> Echo impl v cb x = cb v (x\<lparr>observed := observed x @ []\<rparr>)"
  by (simp add: Echo_def)

lemma closed_with_Master_distinct:
  "distinct (children m s) \<Longrightarrow> distinct (closed_with (Master s) m)"
  by (auto simp: closed_with_def distinct_map inj_on_def)


lemmas fixture_defs =
  SetUp_def SetUp_with_handlers_def SetConnectionErrorHandler_def CreateAssociated_def
  connected_def fresh_world_def TestTaskRunner_def Let_def
  connection_binding_task_runner_def connection_ptr_task_runner_def
  sender_binding_task_runner_def sender_ptr_task_runner_def
  second_binding_task_runner_def second_ptr_task_runner_def

lemma SetUp_runners:
  "tasks (runners SetUp r) = []" "thread_id (runners SetUp r) = 0"
  "tasks (runners SetUp_with_handlers r) = []" "thread_id (runners SetUp_with_handlers r) = 0"
  "history SetUp = []" "history SetUp_with_handlers = []"
  by (simp_all add: fixture_defs)

lemma SetUp_ext:
  "executor (ext SetUp) (Master PtrSide) = 1" "executor (ext SetUp) (Master ImplSide) = 0"
  "executor (ext SetUp) (Associated 0 PtrSide) = 3" "executor (ext SetUp) (Associated 0 ImplSide) = 2"
  "executor (ext SetUp) (Associated 1 PtrSide) = 5" "executor (ext SetUp) (Associated 1 ImplSide) = 4"
  "phase (ext SetUp) (Master s) = Open"
  "phase (ext SetUp) (Associated 0 s) = Open" "phase (ext SetUp) (Associated 1 s) = Open"
  "children (ext SetUp) s = [0, 1]"
  "pending (ext SetUp) e = []" "next_id (ext SetUp) e = 0" "observed (ext SetUp) = []"
  by (cases s; simp add: fixture_defs)+

lemmas SetUp_ext_Suc = SetUp_ext[unfolded One_nat_def]

lemma handlers_ext:
  "executor (ext SetUp_with_handlers) = executor (ext SetUp)"
  "phase (ext SetUp_with_handlers) = phase (ext SetUp)"
  "children (ext SetUp_with_handlers) = children (ext SetUp)"
  "pending (ext SetUp_with_handlers) = pending (ext SetUp)"
  "next_id (ext SetUp_with_handlers) = next_id (ext SetUp)"
  "observed (ext SetUp_with_handlers) = observed (ext SetUp)"
  by (simp_all add: SetUp_with_handlers_def SetConnectionErrorHandler_def)

lemma handlers_of:
  "handler_observations (ext SetUp_with_handlers) (Master s) = [ConnectionError (Master s)]"
  "handler_observations (ext SetUp_with_handlers) (Associated 0 s) = [ConnectionError (Associated 0 s)]"
  "handler_observations (ext SetUp_with_handlers) (Associated 1 s) = []"
  "handler_quits (ext SetUp_with_handlers) (Master PtrSide) = [CallQuit 1]"
  "handler_quits (ext SetUp_with_handlers) (Master ImplSide) = [CallQuit 0]"
  "handler_quits (ext SetUp_with_handlers) (Associated 0 PtrSide) = [CallQuit 3]"
  "handler_quits (ext SetUp_with_handlers) (Associated 0 ImplSide) = [CallQuit 2]"
  "handler_quits (ext SetUp_with_handlers) (Associated 1 s) = []"
  by (cases s; simp add: fixture_defs handler_observations_def handler_quits_def
        test_error_handler_def)+

lemmas handlers_of_Suc = handlers_of[unfolded One_nat_def]

section \<open>Two hops for a call on an associated endpoint\<close>

text \<open>
  C2: take any world in which an associated endpoint, its peer and the two masters are
  open, the four executors involved have nothing queued, and the implementation bound
  to the peer has the echo handler of the test. A call issued on the endpoint fires no
  handler by itself. While only the call was made, the executor of the receiving
  associated endpoint has nothing to run (when it is not the master's). One task on the
  executor of the receiving master, the first hop, still fires nothing; one task on the
  executor of the receiving associated endpoint, the second hop, runs the handler with
  the value. The reply goes the same way: one task on the executor of the caller's
  master fires nothing more, before it the caller's own executor has nothing to run, and
  one task on the caller's executor runs the callback. These four tasks, on these four
  executors in this order, are all that was run.
\<close>

theorem C2_two_hop_forwarding:
  fixes w :: "mojo world"
  assumes "phase (ext w) (Associated i s) = Open" and "phase (ext w) (Associated i (other s)) = Open"
    and "phase (ext w) (Master s) = Open" and "phase (ext w) (Master (other s)) = Open"
    and "quiet_on [executor (ext w) (Master (other s)), executor (ext w) (Associated i (other s)),
                   executor (ext w) (Master s), executor (ext w) (Associated i s)] cur w"
    and "echo_handler (impl (Associated i (other s))) = Some test_echo_handler"
    and "next_id (ext w) (Associated i s) \<notin> fst ` set (pending (ext w) (Associated i s))"
  shows "\<exists>w1 w2 w3 w4 w5.
      Call impl (Associated i s) v (Some test_callback) w = Inr w1
    \<and> observed (ext w1) = observed (ext w)
    \<and> (executor (ext w) (Associated i (other s)) \<noteq> executor (ext w) (Master (other s)) \<longrightarrow>
         RunOneTask cur (executor (ext w) (Associated i (other s))) w1 = None)
    \<and> RunOneTask cur (executor (ext w) (Master (other s))) w1 = Some (Inr w2)
    \<and> observed (ext w2) = observed (ext w)
    \<and> RunOneTask cur (executor (ext w) (Associated i (other s))) w2 = Some (Inr w3)
    \<and> observed (ext w3) = observed (ext w) @ [EchoCalled v]
    \<and> (executor (ext w) (Associated i s) \<noteq> executor (ext w) (Master s) \<longrightarrow>
         RunOneTask cur (executor (ext w) (Associated i s)) w3 = None)
    \<and> RunOneTask cur (executor (ext w) (Master s)) w3 = Some (Inr w4)
    \<and> observed (ext w4) = observed (ext w) @ [EchoCalled v]
    \<and> RunOneTask cur (executor (ext w) (Associated i s)) w4 = Some (Inr w5)
    \<and> observed (ext w5) = observed (ext w) @ [EchoCalled v, EchoReplied v]
    \<and> map fst (history w5) = map fst (history w)
          @ [executor (ext w) (Master (other s)), executor (ext w) (Associated i (other s)),
             executor (ext w) (Master s), executor (ext w) (Associated i s)]"
proof -
  let ?E = "executor (ext w)"
  have cok: "\<forall>q\<in>set (quits (test_callback v)). call_ok cur w q"
    by (simp add: test_callback_def)
  from assms(5) have q: "tasks (runners w (?E (Associated i (other s)))) = []"
      "tasks (runners w (?E (Associated i s))) = []"
    and o: "thread_id (runners w (?E (Associated i (other s)))) = cur"
      "thread_id (runners w (?E (Associated i s))) = cur"
      "thread_id (runners w (?E (Master (other s)))) = cur"
      "thread_id (runners w (?E (Master s))) = cur"
    by (simp_all add: quiet_on_def)
  obtain w1 w2 w3 w4 w5 where
      c: "Call impl (Associated i s) v (Some test_callback) w = Inr w1"
      "RunOneTask cur (?E (Master (other s))) w1 = Some (Inr w2)"
      "RunOneTask cur (?E (Associated i (other s))) w2 = Some (Inr w3)"
      "RunOneTask cur (?E (Master s)) w3 = Some (Inr w4)"
      "RunOneTask cur (?E (Associated i s)) w4 = Some (Inr w5)"
    and ob: "observed (ext w1) = observed (ext w)" "observed (ext w2) = observed (ext w)"
      "observed (ext w3) = observed (ext w) @ [EchoCalled v]"
      "observed (ext w4) = observed (ext w) @ [EchoCalled v]"
    and e5: "ext w5 = (ext w)\<lparr>next_id := (next_id (ext w))
                     ((Associated i s) := Suc (next_id (ext w) (Associated i s))),
                 observed := observed (ext w) @ [EchoCalled v] @ observations (test_callback v)\<rparr>"
    and t1: "\<And>q. tasks (runners w1 q) = tasks (runners w q)
               @ (if q = ?E (Master (other s))
                  then [request_arrives impl (Associated i (other s))
                          (next_id (ext w) (Associated i s)) v] else [])"
    and t3: "\<And>q. tasks (runners w3 q) = tasks (runners w q)
               @ (if q = ?E (Master s)
                  then [reply_arrives (Associated i s) (next_id (ext w) (Associated i s)) v]
                  else [])"
    and i1: "\<And>q. thread_id (runners w1 q) = thread_id (runners w q)"
    and i3: "\<And>q. thread_id (runners w3 q) = thread_id (runners w q)"
    and h: "map fst (history w5) = map fst (history w)
          @ [?E (Master (other s)), ?E (Associated i (other s)), ?E (Master s), ?E (Associated i s)]"
    by (rule round_trip[of w i s cur impl v "[EchoCalled v]" test_callback,
          OF assms(1-5) Echo_test_handler[OF assms(6)] assms(7) cok]) blast
  have n1: "RunOneTask cur (?E (Associated i (other s))) w1 = None"
    if "?E (Associated i (other s)) \<noteq> ?E (Master (other s))"
    by (rule RunOneTask_empty) (use that t1 i1 q o in simp_all)
  have n3: "RunOneTask cur (?E (Associated i s)) w3 = None"
    if "?E (Associated i s) \<noteq> ?E (Master s)"
    by (rule RunOneTask_empty) (use that t3 i3 q o in simp_all)
  have o5: "observed (ext w5) = observed (ext w) @ [EchoCalled v, EchoReplied v]"
    by (simp add: e5 test_callback_def)
  from c ob n1 n3 o5 h show ?thesis by blast
qed

theorem C2_witness:
  "phase (ext SetUp) (Associated 0 PtrSide) = Open
   \<and> phase (ext SetUp) (Associated 0 ImplSide) = Open
   \<and> phase (ext SetUp) (Master PtrSide) = Open \<and> phase (ext SetUp) (Master ImplSide) = Open
   \<and> quiet_on [connection_binding_task_runner, sender_binding_task_runner,
                connection_ptr_task_runner, sender_ptr_task_runner] 0 SetUp
   \<and> echo_handler (test_impl (Associated 0 ImplSide)) = Some test_echo_handler
   \<and> next_id (ext SetUp) (Associated 0 PtrSide) \<notin> fst ` set (pending (ext SetUp) (Associated 0 PtrSide))
   \<and> then_do (Some (Call test_impl (Associated 0 PtrSide) 1024 (Some test_callback) SetUp))
         (RunOneTask 0 sender_binding_task_runner) = None
   \<and> map_option (map_sum id (\<lambda>w. observed (ext w)))
        (then_do (Some (Call test_impl (Associated 0 PtrSide) 1024 (Some test_callback) SetUp))
          (RunOneTask 0 connection_binding_task_runner)) = Some (Inr [])
   \<and> map_option (map_sum id (\<lambda>w. observed (ext w)))
        (then_do (then_do
           (Some (Call test_impl (Associated 0 PtrSide) 1024 (Some test_callback) SetUp))
           (RunOneTask 0 connection_binding_task_runner))
           (RunOneTask 0 sender_binding_task_runner)) = Some (Inr [EchoCalled 1024])
   \<and> map_option (map_sum id (\<lambda>w. (observed (ext w), map fst (history w))))
        (then_do (then_do (then_do (then_do
           (Some (Call test_impl (Associated 0 PtrSide) 1024 (Some test_callback) SetUp))
           (RunOneTask 0 connection_binding_task_runner))
           (RunOneTask 0 sender_binding_task_runner))
           (RunOneTask 0 connection_ptr_task_runner))
           (RunOneTask 0 sender_ptr_task_runner))
       = Some (Inr ([EchoCalled 1024, EchoReplied 1024],
                    [connection_binding_task_runner, sender_binding_task_runner,
                     connection_ptr_task_runner, sender_ptr_task_runner]))"
proof -
  have rs: "connection_binding_task_runner = executor (ext SetUp) (Master (other PtrSide))"
    "sender_binding_task_runner = executor (ext SetUp) (Associated 0 (other PtrSide))"
    "connection_ptr_task_runner = executor (ext SetUp) (Master PtrSide)"
    "sender_ptr_task_runner = executor (ext SetUp) (Associated 0 PtrSide)"
    by (simp_all add: SetUp_ext connection_binding_task_runner_def sender_binding_task_runner_def
        connection_ptr_task_runner_def sender_ptr_task_runner_def)
  have h: "phase (ext SetUp) (Associated 0 PtrSide) = Open"
    "phase (ext SetUp) (Associated 0 (other PtrSide)) = Open"
    "phase (ext SetUp) (Master PtrSide) = Open" "phase (ext SetUp) (Master (other PtrSide)) = Open"
    "quiet_on [executor (ext SetUp) (Master (other PtrSide)),
               executor (ext SetUp) (Associated 0 (other PtrSide)),
               executor (ext SetUp) (Master PtrSide),
               executor (ext SetUp) (Associated 0 PtrSide)] 0 SetUp"
    "echo_handler (test_impl (Associated 0 (other PtrSide))) = Some test_echo_handler"
    "next_id (ext SetUp) (Associated 0 PtrSide)
       \<notin> fst ` set (pending (ext SetUp) (Associated 0 PtrSide))"
    by (simp_all add: SetUp_ext SetUp_runners quiet_on_def test_impl_def set_echo_handler_def)
  have ne: "executor (ext SetUp) (Associated 0 (other PtrSide))
              \<noteq> executor (ext SetUp) (Master (other PtrSide))"
    by (simp add: SetUp_ext)
  from C2_two_hop_forwarding[where w = SetUp and i = 0 and s = PtrSide and cur = 0
        and impl = test_impl and v = 1024, OF h] ne obtain w1 w2 w3 w4 w5 where
      "Call test_impl (Associated 0 PtrSide) 1024 (Some test_callback) SetUp = Inr w1"
      "RunOneTask 0 sender_binding_task_runner w1 = None"
      "RunOneTask 0 connection_binding_task_runner w1 = Some (Inr w2)"
      "observed (ext w2) = observed (ext SetUp)"
      "RunOneTask 0 sender_binding_task_runner w2 = Some (Inr w3)"
      "observed (ext w3) = observed (ext SetUp) @ [EchoCalled 1024]"
      "RunOneTask 0 connection_ptr_task_runner w3 = Some (Inr w4)"
      "RunOneTask 0 sender_ptr_task_runner w4 = Some (Inr w5)"
      "observed (ext w5) = observed (ext SetUp) @ [EchoCalled 1024, EchoReplied 1024]"
      "map fst (history w5) = map fst (history SetUp)
          @ [connection_binding_task_runner, sender_binding_task_runner,
             connection_ptr_task_runner, sender_ptr_task_runner]"
    unfolding rs[symmetric] by blast
  then show ?thesis
    using h(1-4,6,7) h(5)[folded rs] by (simp add: SetUp_ext SetUp_runners)
qed

section \<open>The reply reaches the callback once\<close>

text \<open>
  C6: in the same setting, with an implementation on which no handler was set, so that
  \<^verbatim>\<open>Echo\<close> runs the reply callback at once with the value it got: \<open>Call(v, c)\<close>
  followed by one task on each of the four executors (the receiving master's, the
  receiving endpoint's, the caller's master's, the caller's) runs \<open>c\<close> with \<open>v\<close>.
  Nothing of \<open>c\<close> is seen before the last of the four tasks; after it, what \<open>c v\<close>
  leaves is there once, the pending call is gone, no runner has anything more queued than
  before, and delivering the same reply again would run nothing.
\<close>

theorem C6_round_trip:
  fixes w :: "mojo world" and c :: "int32 \<Rightarrow> reaction list"
  assumes "phase (ext w) (Associated i s) = Open" and "phase (ext w) (Associated i (other s)) = Open"
    and "phase (ext w) (Master s) = Open" and "phase (ext w) (Master (other s)) = Open"
    and "quiet_on [executor (ext w) (Master (other s)), executor (ext w) (Associated i (other s)),
                   executor (ext w) (Master s), executor (ext w) (Associated i s)] cur w"
    and "echo_handler (impl (Associated i (other s))) = None"
    and "next_id (ext w) (Associated i s) \<notin> fst ` set (pending (ext w) (Associated i s))"
    and "\<forall>q\<in>set (quits (c v)). call_ok cur w q"
  shows "\<exists>w1 w2 w3 w4 w5.
      Call impl (Associated i s) v (Some c) w = Inr w1
    \<and> RunOneTask cur (executor (ext w) (Master (other s))) w1 = Some (Inr w2)
    \<and> RunOneTask cur (executor (ext w) (Associated i (other s))) w2 = Some (Inr w3)
    \<and> RunOneTask cur (executor (ext w) (Master s)) w3 = Some (Inr w4)
    \<and> RunOneTask cur (executor (ext w) (Associated i s)) w4 = Some (Inr w5)
    \<and> observed (ext w1) = observed (ext w) \<and> observed (ext w2) = observed (ext w)
    \<and> observed (ext w3) = observed (ext w) \<and> observed (ext w4) = observed (ext w)
    \<and> observed (ext w5) = observed (ext w) @ observations (c v)
    \<and> pending (ext w5) = pending (ext w)
    \<and> (\<forall>q. tasks (runners w5 q) = tasks (runners w q))
    \<and> closure_body (reply_delivery (Associated i s) (next_id (ext w) (Associated i s)) v) (ext w5)
          = (ext w5, [])"
proof -
  let ?E = "executor (ext w)"
  let ?n = "next_id (ext w) (Associated i s)"
  obtain w1 w2 w3 w4 w5 where
      c: "Call impl (Associated i s) v (Some c) w = Inr w1"
      "RunOneTask cur (?E (Master (other s))) w1 = Some (Inr w2)"
      "RunOneTask cur (?E (Associated i (other s))) w2 = Some (Inr w3)"
      "RunOneTask cur (?E (Master s)) w3 = Some (Inr w4)"
      "RunOneTask cur (?E (Associated i s)) w4 = Some (Inr w5)"
    and ob: "observed (ext w1) = observed (ext w)" "observed (ext w2) = observed (ext w)"
      "observed (ext w3) = observed (ext w) @ []"
      "observed (ext w4) = observed (ext w) @ []"
    and e5: "ext w5 = (ext w)\<lparr>next_id := (next_id (ext w))((Associated i s) := Suc ?n),
                 observed := observed (ext w) @ [] @ observations (c v)\<rparr>"
    and t5: "\<And>q. tasks (runners w5 q) = tasks (runners w q)"
    by (rule round_trip[of w i s cur impl v "[]" c,
          OF assms(1-5) Echo_null_handler[OF assms(6)] assms(7,8)]) blast
  from assms(7) have "map_of (pending (ext w) (Associated i s)) ?n = None"
    by (simp add: map_of_eq_None_iff)
  then have again: "closure_body (reply_delivery (Associated i s) ?n v) (ext w5) = (ext w5, [])"
    by (simp add: reply_delivery_def e5)
  have "observed (ext w5) = observed (ext w) @ observations (c v)"
    and "pending (ext w5) = pending (ext w)"
    by (simp_all add: e5)
  with c ob t5 again show ?thesis by auto
qed

theorem C6_witness:
  "phase (ext SetUp) (Associated 0 PtrSide) = Open
   \<and> phase (ext SetUp) (Associated 0 ImplSide) = Open
   \<and> phase (ext SetUp) (Master PtrSide) = Open \<and> phase (ext SetUp) (Master ImplSide) = Open
   \<and> quiet_on [connection_binding_task_runner, sender_binding_task_runner,
                connection_ptr_task_runner, sender_ptr_task_runner] 0 SetUp
   \<and> echo_handler (plain_impl (Associated 0 ImplSide)) = None
   \<and> next_id (ext SetUp) (Associated 0 PtrSide) \<notin> fst ` set (pending (ext SetUp) (Associated 0 PtrSide))
   \<and> list_all (call_ok 0 SetUp) (quits (test_callback 1024))
   \<and> map_option (map_sum id (\<lambda>w. observed (ext w)))
        (then_do (then_do (then_do
           (Some (Call plain_impl (Associated 0 PtrSide) 1024 (Some test_callback) SetUp))
           (RunOneTask 0 connection_binding_task_runner))
           (RunOneTask 0 sender_binding_task_runner))
           (RunOneTask 0 connection_ptr_task_runner)) = Some (Inr [])
   \<and> map_option (map_sum id (\<lambda>w. (observed (ext w), pending (ext w) (Associated 0 PtrSide))))
        (then_do (then_do (then_do (then_do
           (Some (Call plain_impl (Associated 0 PtrSide) 1024 (Some test_callback) SetUp))
           (RunOneTask 0 connection_binding_task_runner))
           (RunOneTask 0 sender_binding_task_runner))
           (RunOneTask 0 connection_ptr_task_runner))
           (RunOneTask 0 sender_ptr_task_runner))
       = Some (Inr ([EchoReplied 1024], []))"
proof -
  have rs: "connection_binding_task_runner = executor (ext SetUp) (Master (other PtrSide))"
    "sender_binding_task_runner = executor (ext SetUp) (Associated 0 (other PtrSide))"
    "connection_ptr_task_runner = executor (ext SetUp) (Master PtrSide)"
    "sender_ptr_task_runner = executor (ext SetUp) (Associated 0 PtrSide)"
    by (simp_all add: SetUp_ext SetUp_ext_Suc connection_binding_task_runner_def sender_binding_task_runner_def
        connection_ptr_task_runner_def sender_ptr_task_runner_def)
  have h: "phase (ext SetUp) (Associated 0 PtrSide) = Open"
    "phase (ext SetUp) (Associated 0 (other PtrSide)) = Open"
    "phase (ext SetUp) (Master PtrSide) = Open" "phase (ext SetUp) (Master (other PtrSide)) = Open"
    "quiet_on [executor (ext SetUp) (Master (other PtrSide)),
               executor (ext SetUp) (Associated 0 (other PtrSide)),
               executor (ext SetUp) (Master PtrSide),
               executor (ext SetUp) (Associated 0 PtrSide)] 0 SetUp"
    "echo_handler (plain_impl (Associated 0 (other PtrSide))) = None"
    "next_id (ext SetUp) (Associated 0 PtrSide)
       \<notin> fst ` set (pending (ext SetUp) (Associated 0 PtrSide))"
    "\<forall>q\<in>set (quits (test_callback 1024)). call_ok 0 SetUp q"
    by (simp_all add: SetUp_ext SetUp_ext_Suc SetUp_runners quiet_on_def plain_impl_def IntegerSenderImpl_def
        test_callback_def)
  from C6_round_trip[where w = SetUp and i = 0 and s = PtrSide and cur = 0
        and impl = plain_impl and v = 1024 and c = test_callback, OF h] obtain w1 w2 w3 w4 w5 where
      "Call plain_impl (Associated 0 PtrSide) 1024 (Some test_callback) SetUp = Inr w1"
      "RunOneTask 0 connection_binding_task_runner w1 = Some (Inr w2)"
      "RunOneTask 0 sender_binding_task_runner w2 = Some (Inr w3)"
      "RunOneTask 0 connection_ptr_task_runner w3 = Some (Inr w4)"
      "RunOneTask 0 sender_ptr_task_runner w4 = Some (Inr w5)"
      "observed (ext w4) = observed (ext SetUp)"
      "observed (ext w5) = observed (ext SetUp) @ observations (test_callback 1024)"
      "pending (ext w5) = pending (ext SetUp)"
    unfolding rs[symmetric] by blast
  then show ?thesis
    using h(1-4,6,7) h(5)[folded rs] by (simp add: SetUp_ext SetUp_ext_Suc test_callback_def)
qed

section \<open>Closing a master\<close>

text \<open>
  C5: take any world in which the two masters and all their associated endpoints are
  open, each endpoint of a side has an executor of its own on that side, the executor of
  the other master is none of the executors of the closing side, and all these executors
  have nothing queued. After the master of side \<open>s\<close> is closed, one task on the executor
  of each endpoint of that side runs the connection-error handler of that endpoint; one
  task on the executor of the other master tells the other side; then one task on the
  executor of each endpoint of the other side runs its handler. The history shows each
  connection-error task once, on the executor of its endpoint; what the handlers leave
  is there once each; nothing stays queued; every one of these endpoints is closed, a
  call on it is a fatal programming error (on the closing side, from the moment of the
  close), a request still under way to it is dropped, and a further connection-error
  task would run nothing.
\<close>

theorem C5_symmetric_teardown:
  fixes w :: "mojo world"
  assumes "\<forall>x\<in>set (closed_with (Master s) (ext w)) \<union> set (closed_with (Master (other s)) (ext w)).
             phase (ext w) x = Open"
    and "distinct (children (ext w) s)" and "distinct (children (ext w) (other s))"
    and "inj_on (executor (ext w)) (set (closed_with (Master s) (ext w)))"
    and "inj_on (executor (ext w)) (set (closed_with (Master (other s)) (ext w)))"
    and "executor (ext w) (Master (other s))
           \<notin> executor (ext w) ` set (closed_with (Master s) (ext w))"
    and "quiet_on (executor (ext w) (Master (other s))
                    # map (executor (ext w)) (closed_with (Master s) (ext w))
                    @ map (executor (ext w)) (closed_with (Master (other s)) (ext w))) cur w"
    and "\<forall>x\<in>set (closed_with (Master s) (ext w)) \<union> set (closed_with (Master (other s)) (ext w)).
           \<forall>c\<in>set (handler_quits (ext w) x). call_ok cur w c"
  shows "\<exists>w1 w2 w3 w4.
      perform cur (Close (Master s)) w = Inr w1
    \<and> run_each cur (map (executor (ext w)) (closed_with (Master s) (ext w))) w1 = Some (Inr w2)
    \<and> RunOneTask cur (executor (ext w) (Master (other s))) w2 = Some (Inr w3)
    \<and> run_each cur (map (executor (ext w)) (closed_with (Master (other s)) (ext w))) w3
         = Some (Inr w4)
    \<and> observed (ext w1) = observed (ext w)
    \<and> observed (ext w2) = observed (ext w)
         @ concat (map (handler_observations (ext w)) (closed_with (Master s) (ext w)))
    \<and> observed (ext w3) = observed (ext w2)
    \<and> observed (ext w4) = observed (ext w)
         @ concat (map (handler_observations (ext w)) (closed_with (Master s) (ext w)))
         @ concat (map (handler_observations (ext w)) (closed_with (Master (other s)) (ext w)))
    \<and> map (\<lambda>h. (fst h, fst (snd h))) (history w4) = map (\<lambda>h. (fst h, fst (snd h))) (history w)
         @ map (\<lambda>x. (executor (ext w) x, error_task x)) (closed_with (Master s) (ext w))
         @ [(executor (ext w) (Master (other s)), peer_closed_arrives (Master (other s)))]
         @ map (\<lambda>x. (executor (ext w) x, error_task x)) (closed_with (Master (other s)) (ext w))
    \<and> (\<forall>q. tasks (runners w4 q) = tasks (runners w q))
    \<and> (\<forall>x\<in>set (closed_with (Master s) (ext w)).
          Call impl x v cb w1 = Inl CallOnClosedEndpoint)
    \<and> (\<forall>x\<in>set (closed_with (Master s) (ext w)) \<union> set (closed_with (Master (other s)) (ext w)).
          phase (ext w4) x = Closed
        \<and> Call impl x v cb w4 = Inl CallOnClosedEndpoint
        \<and> closure_body (request_delivery impl x n v) (ext w4) = (ext w4, [])
        \<and> closure_body (error_task x) (ext w4) = (ext w4, []))"
proof -
  let ?m = "ext w"
  let ?L = "closed_with (Master s) ?m" and ?R = "closed_with (Master (other s)) ?m"
  let ?E = "executor ?m"
  have dL: "distinct ?L" and dR: "distinct ?R"
    using assms(2,3) by (simp_all add: closed_with_Master_distinct)
  have pe: "peer (Master s) = Master (other s)"
    "master_of (Master (other s)) = Master (other s)" by simp_all
  obtain w1 w2 w3 w4 where
      r: "perform cur (Close (Master s)) w = Inr w1"
      "run_each cur (map ?E ?L) w1 = Some (Inr w2)"
      "RunOneTask cur (?E (Master (other s))) w2 = Some (Inr w3)"
      "run_each cur (map ?E ?R) w3 = Some (Inr w4)"
    and e1: "ext w1 = ?m\<lparr>phase := (\<lambda>y. if y \<in> set ?L then Closing else phase ?m y),
                 pending := (\<lambda>y. if y \<in> set ?L then [] else pending ?m y)\<rparr>"
    and o2: "observed (ext w2) = observed ?m @ concat (map (handler_observations ?m) ?L)"
    and o3: "observed (ext w3) = observed ?m @ concat (map (handler_observations ?m) ?L)"
    and e4: "ext w4 = ?m\<lparr>phase := (\<lambda>y. if y \<in> set ?L \<union> set ?R then Closed else phase ?m y),
                 pending := (\<lambda>y. if y \<in> set ?L \<union> set ?R then [] else pending ?m y),
                 observed := observed ?m @ concat (map (handler_observations ?m) ?L)
                               @ concat (map (handler_observations ?m) ?R)\<rparr>"
    and t4: "\<And>q. tasks (runners w4 q) = tasks (runners w q)"
    and h4: "map (\<lambda>h. (fst h, fst (snd h))) (history w4) = map (\<lambda>h. (fst h, fst (snd h))) (history w)
          @ map (\<lambda>x. (?E x, error_task x)) ?L
          @ [(?E (Master (other s)), peer_closed_arrives (Master (other s)))]
          @ map (\<lambda>x. (?E x, error_task x)) ?R"
    by (rule teardown[of "Master s" w cur, unfolded pe, OF assms(1) dL dR assms(4-8)]) blast
  have a: "observed (ext w1) = observed ?m" by (simp add: e1)
  have b: "\<forall>x\<in>set ?L. Call impl x v cb w1 = Inl CallOnClosedEndpoint"
    by (simp add: Call_def Let_def e1)
  have c: "\<forall>x\<in>set ?L \<union> set ?R.
          phase (ext w4) x = Closed
        \<and> Call impl x v cb w4 = Inl CallOnClosedEndpoint
        \<and> closure_body (request_delivery impl x n v) (ext w4) = (ext w4, [])
        \<and> closure_body (error_task x) (ext w4) = (ext w4, [])"
    by (auto simp: Call_def Let_def e4 request_delivery_def error_task_def)
  have o3': "observed (ext w3) = observed (ext w2)" by (simp add: o2 o3)
  have o4: "observed (ext w4) = observed ?m @ concat (map (handler_observations ?m) ?L)
         @ concat (map (handler_observations ?m) ?R)"
    by (simp add: e4)
  have t4': "\<forall>q. tasks (runners w4 q) = tasks (runners w q)" using t4 by simp
  show ?thesis
    apply (rule exI[of _ w1], rule exI[of _ w2], rule exI[of _ w3], rule exI[of _ w4])
    apply (intro conjI)
    apply (fact r a o2 o3' o4 h4 t4' b c)+
    done
qed

theorem C5_witness:
  "list_all (\<lambda>x. phase (ext SetUp_with_handlers) x = Open)
     (closed_with (Master PtrSide) (ext SetUp_with_handlers)
        @ closed_with (Master ImplSide) (ext SetUp_with_handlers))
   \<and> distinct (children (ext SetUp_with_handlers) PtrSide)
   \<and> distinct (children (ext SetUp_with_handlers) ImplSide)
   \<and> inj_on (executor (ext SetUp_with_handlers))
        (set (closed_with (Master PtrSide) (ext SetUp_with_handlers)))
   \<and> inj_on (executor (ext SetUp_with_handlers))
        (set (closed_with (Master ImplSide) (ext SetUp_with_handlers)))
   \<and> connection_binding_task_runner \<notin> executor (ext SetUp_with_handlers)
        ` set (closed_with (Master PtrSide) (ext SetUp_with_handlers))
   \<and> quiet_on [connection_binding_task_runner,
                connection_ptr_task_runner, sender_ptr_task_runner, second_ptr_task_runner,
                connection_binding_task_runner, sender_binding_task_runner,
                second_binding_task_runner] 0 SetUp_with_handlers
   \<and> list_all (\<lambda>x. list_all (call_ok 0 SetUp_with_handlers)
                      (handler_quits (ext SetUp_with_handlers) x))
        (closed_with (Master PtrSide) (ext SetUp_with_handlers)
           @ closed_with (Master ImplSide) (ext SetUp_with_handlers))
   \<and> map_option (map_sum id (\<lambda>w. observed (ext w)))
        (then_do (Some (perform 0 (Close (Master PtrSide)) SetUp_with_handlers))
           (run_each 0 [connection_ptr_task_runner, sender_ptr_task_runner,
                        second_ptr_task_runner]))
       = Some (Inr [ConnectionError (Master PtrSide), ConnectionError (Associated 0 PtrSide)])
   \<and> map_option (map_sum id (\<lambda>w. (observed (ext w),
          map (\<lambda>x. Call test_impl x 7 (Some test_callback) w)
            [Master PtrSide, Associated 0 PtrSide, Associated 1 PtrSide,
             Master ImplSide, Associated 0 ImplSide, Associated 1 ImplSide])))
        (then_do (then_do (then_do
           (Some (perform 0 (Close (Master PtrSide)) SetUp_with_handlers))
           (run_each 0 [connection_ptr_task_runner, sender_ptr_task_runner,
                        second_ptr_task_runner]))
           (RunOneTask 0 connection_binding_task_runner))
           (run_each 0 [connection_binding_task_runner, sender_binding_task_runner,
                        second_binding_task_runner]))
       = Some (Inr ([ConnectionError (Master PtrSide), ConnectionError (Associated 0 PtrSide),
                     ConnectionError (Master ImplSide), ConnectionError (Associated 0 ImplSide)],
                    [Inl CallOnClosedEndpoint, Inl CallOnClosedEndpoint, Inl CallOnClosedEndpoint,
                     Inl CallOnClosedEndpoint, Inl CallOnClosedEndpoint, Inl CallOnClosedEndpoint]))"
proof -
  let ?W = SetUp_with_handlers
  have L: "closed_with (Master PtrSide) (ext ?W)
             = [Master PtrSide, Associated 0 PtrSide, Associated 1 PtrSide]"
    and R: "closed_with (Master (other PtrSide)) (ext ?W)
             = [Master ImplSide, Associated 0 ImplSide, Associated 1 ImplSide]"
    by (simp_all add: closed_with_def handlers_ext SetUp_ext SetUp_ext_Suc)
  have E: "executor (ext ?W) (Master PtrSide) = connection_ptr_task_runner"
    "executor (ext ?W) (Master ImplSide) = connection_binding_task_runner"
    "executor (ext ?W) (Associated 0 PtrSide) = sender_ptr_task_runner"
    "executor (ext ?W) (Associated 0 ImplSide) = sender_binding_task_runner"
    "executor (ext ?W) (Associated 1 PtrSide) = second_ptr_task_runner"
    "executor (ext ?W) (Associated 1 ImplSide) = second_binding_task_runner"
    by (simp_all add: handlers_ext SetUp_ext SetUp_ext_Suc connection_binding_task_runner_def
        sender_binding_task_runner_def connection_ptr_task_runner_def sender_ptr_task_runner_def
        second_binding_task_runner_def second_ptr_task_runner_def)
  have n: "connection_ptr_task_runner = 1" "connection_binding_task_runner = 0"
    "sender_ptr_task_runner = 3" "sender_binding_task_runner = 2"
    "second_ptr_task_runner = 5" "second_binding_task_runner = 4"
    by (simp_all add: connection_binding_task_runner_def
        sender_binding_task_runner_def connection_ptr_task_runner_def sender_ptr_task_runner_def
        second_binding_task_runner_def second_ptr_task_runner_def)
  have h: "\<forall>x\<in>set (closed_with (Master PtrSide) (ext ?W))
              \<union> set (closed_with (Master (other PtrSide)) (ext ?W)). phase (ext ?W) x = Open"
    "distinct (children (ext ?W) PtrSide)" "distinct (children (ext ?W) (other PtrSide))"
    "inj_on (executor (ext ?W)) (set (closed_with (Master PtrSide) (ext ?W)))"
    "inj_on (executor (ext ?W)) (set (closed_with (Master (other PtrSide)) (ext ?W)))"
    "executor (ext ?W) (Master (other PtrSide))
       \<notin> executor (ext ?W) ` set (closed_with (Master PtrSide) (ext ?W))"
    "quiet_on (executor (ext ?W) (Master (other PtrSide))
                # map (executor (ext ?W)) (closed_with (Master PtrSide) (ext ?W))
                @ map (executor (ext ?W)) (closed_with (Master (other PtrSide)) (ext ?W))) 0 ?W"
    "\<forall>x\<in>set (closed_with (Master PtrSide) (ext ?W))
              \<union> set (closed_with (Master (other PtrSide)) (ext ?W)).
        \<forall>c\<in>set (handler_quits (ext ?W) x). call_ok 0 ?W c"
    unfolding L R
    by (simp_all add: E n handlers_ext SetUp_ext SetUp_ext_Suc SetUp_runners quiet_on_def handlers_of handlers_of_Suc handlers_of_Suc)
  from C5_symmetric_teardown[where w = ?W and s = PtrSide and cur = 0 and impl = test_impl
        and v = 7 and cb = "Some test_callback", OF h]
  obtain w1 w2 w3 w4 where
      "perform 0 (Close (Master PtrSide)) ?W = Inr w1"
      "run_each 0 [connection_ptr_task_runner, sender_ptr_task_runner, second_ptr_task_runner] w1
         = Some (Inr w2)"
      "RunOneTask 0 connection_binding_task_runner w2 = Some (Inr w3)"
      "run_each 0 [connection_binding_task_runner, sender_binding_task_runner,
                   second_binding_task_runner] w3 = Some (Inr w4)"
      "observed (ext w2) = observed (ext ?W)
         @ concat (map (handler_observations (ext ?W))
             [Master PtrSide, Associated 0 PtrSide, Associated 1 PtrSide])"
      "observed (ext w4) = observed (ext ?W)
         @ concat (map (handler_observations (ext ?W))
             [Master PtrSide, Associated 0 PtrSide, Associated 1 PtrSide])
         @ concat (map (handler_observations (ext ?W))
             [Master ImplSide, Associated 0 ImplSide, Associated 1 ImplSide])"
      "\<forall>x\<in>set [Master PtrSide, Associated 0 PtrSide, Associated 1 PtrSide]
           \<union> set [Master ImplSide, Associated 0 ImplSide, Associated 1 ImplSide].
          Call test_impl x 7 (Some test_callback) w4 = Inl CallOnClosedEndpoint"
    unfolding L R by (simp only: E list.map other.simps) blast
  then have r: "map_option (map_sum id (\<lambda>w. observed (ext w)))
        (then_do (Some (perform 0 (Close (Master PtrSide)) ?W))
           (run_each 0 [connection_ptr_task_runner, sender_ptr_task_runner,
                        second_ptr_task_runner]))
       = Some (Inr [ConnectionError (Master PtrSide), ConnectionError (Associated 0 PtrSide)])"
    "map_option (map_sum id (\<lambda>w. (observed (ext w),
          map (\<lambda>x. Call test_impl x 7 (Some test_callback) w)
            [Master PtrSide, Associated 0 PtrSide, Associated 1 PtrSide,
             Master ImplSide, Associated 0 ImplSide, Associated 1 ImplSide])))
        (then_do (then_do (then_do
           (Some (perform 0 (Close (Master PtrSide)) ?W))
           (run_each 0 [connection_ptr_task_runner, sender_ptr_task_runner,
                        second_ptr_task_runner]))
           (RunOneTask 0 connection_binding_task_runner))
           (run_each 0 [connection_binding_task_runner, sender_binding_task_runner,
                        second_binding_task_runner]))
       = Some (Inr ([ConnectionError (Master PtrSide), ConnectionError (Associated 0 PtrSide),
                     ConnectionError (Master ImplSide), ConnectionError (Associated 0 ImplSide)],
                    [Inl CallOnClosedEndpoint, Inl CallOnClosedEndpoint, Inl CallOnClosedEndpoint,
                     Inl CallOnClosedEndpoint, Inl CallOnClosedEndpoint, Inl CallOnClosedEndpoint]))"
    by (simp_all add: handlers_ext SetUp_ext SetUp_ext_Suc handlers_of handlers_of_Suc)
  have g: "list_all (\<lambda>x. phase (ext ?W) x = Open)
             (closed_with (Master PtrSide) (ext ?W) @ closed_with (Master ImplSide) (ext ?W))"
    "distinct (children (ext ?W) PtrSide)" "distinct (children (ext ?W) ImplSide)"
    "inj_on (executor (ext ?W)) (set (closed_with (Master PtrSide) (ext ?W)))"
    "inj_on (executor (ext ?W)) (set (closed_with (Master ImplSide) (ext ?W)))"
    "connection_binding_task_runner
       \<notin> executor (ext ?W) ` set (closed_with (Master PtrSide) (ext ?W))"
    "quiet_on [connection_binding_task_runner,
                connection_ptr_task_runner, sender_ptr_task_runner, second_ptr_task_runner,
                connection_binding_task_runner, sender_binding_task_runner,
                second_binding_task_runner] 0 ?W"
    "list_all (\<lambda>x. list_all (call_ok 0 ?W) (handler_quits (ext ?W) x))
       (closed_with (Master PtrSide) (ext ?W) @ closed_with (Master ImplSide) (ext ?W))"
    unfolding L R[unfolded other.simps]
    by (simp_all add: n handlers_ext SetUp_ext SetUp_ext_Suc SetUp_runners quiet_on_def
        handlers_of handlers_of_Suc)
  show ?thesis
    by (intro conjI) (fact g r)+
qed

section \<open>Closing an associated endpoint\<close>

text \<open>
  C8: take two different associated endpoints \<open>i\<close> and \<open>j\<close> under the same masters,
  everything open, the executors involved idle, the master of the other side not on the
  executor of endpoint \<open>i\<close>. After endpoint \<open>i\<close> is closed and the three tasks this
  causes have run (its own connection-error task, the notice to the other side on the
  other master's executor, the connection-error task of its peer), the handlers of
  endpoint \<open>i\<close> and of its peer have run and no other; the tasks run were these three,
  none of them a connection-error task of a master; nothing stays queued; both masters
  are still open. A call on endpoint \<open>j\<close> then goes its two hops each way as before:
  the handler and the callback run, and the masters stay open.
\<close>

theorem C8_asymmetric_teardown:
  fixes w :: "mojo world" and c :: "int32 \<Rightarrow> reaction list"
  assumes "i \<noteq> j"
    and "phase (ext w) (Associated i s) = Open" and "phase (ext w) (Associated i (other s)) = Open"
    and "phase (ext w) (Associated j s) = Open" and "phase (ext w) (Associated j (other s)) = Open"
    and "phase (ext w) (Master s) = Open" and "phase (ext w) (Master (other s)) = Open"
    and "executor (ext w) (Master (other s)) \<noteq> executor (ext w) (Associated i s)"
    and "quiet_on [executor (ext w) (Master (other s)), executor (ext w) (Associated i s),
                   executor (ext w) (Associated i (other s)),
                   executor (ext w) (Associated j (other s)),
                   executor (ext w) (Master s), executor (ext w) (Associated j s)] cur w"
    and "\<forall>c\<in>set (handler_quits (ext w) (Associated i s)). call_ok cur w c"
    and "\<forall>c\<in>set (handler_quits (ext w) (Associated i (other s))). call_ok cur w c"
    and "echo_handler (impl (Associated j (other s))) = Some test_echo_handler"
    and "next_id (ext w) (Associated j s) \<notin> fst ` set (pending (ext w) (Associated j s))"
    and "\<forall>q\<in>set (quits (c v)). call_ok cur w q"
  shows "\<exists>w1 w2 w3 w4 u1 u2 u3 u4 u5.
      perform cur (Close (Associated i s)) w = Inr w1
    \<and> RunOneTask cur (executor (ext w) (Associated i s)) w1 = Some (Inr w2)
    \<and> RunOneTask cur (executor (ext w) (Master (other s))) w2 = Some (Inr w3)
    \<and> RunOneTask cur (executor (ext w) (Associated i (other s))) w3 = Some (Inr w4)
    \<and> observed (ext w4) = observed (ext w)
         @ handler_observations (ext w) (Associated i s)
         @ handler_observations (ext w) (Associated i (other s))
    \<and> map (\<lambda>h. (fst h, fst (snd h))) (history w4) = map (\<lambda>h. (fst h, fst (snd h))) (history w)
         @ [(executor (ext w) (Associated i s), error_task (Associated i s)),
            (executor (ext w) (Master (other s)), peer_closed_arrives (Associated i (other s))),
            (executor (ext w) (Associated i (other s)), error_task (Associated i (other s)))]
    \<and> (\<forall>q. tasks (runners w4 q) = tasks (runners w q))
    \<and> phase (ext w4) (Associated i s) = Closed \<and> phase (ext w4) (Associated i (other s)) = Closed
    \<and> phase (ext w4) (Master s) = Open \<and> phase (ext w4) (Master (other s)) = Open
    \<and> Call impl (Associated j s) v (Some c) w4 = Inr u1
    \<and> RunOneTask cur (executor (ext w) (Master (other s))) u1 = Some (Inr u2)
    \<and> RunOneTask cur (executor (ext w) (Associated j (other s))) u2 = Some (Inr u3)
    \<and> RunOneTask cur (executor (ext w) (Master s)) u3 = Some (Inr u4)
    \<and> RunOneTask cur (executor (ext w) (Associated j s)) u4 = Some (Inr u5)
    \<and> observed (ext u5) = observed (ext w4) @ [EchoCalled v] @ observations (c v)
    \<and> phase (ext u5) (Master s) = Open \<and> phase (ext u5) (Master (other s)) = Open"
proof -
  let ?m = "ext w"
  let ?A = "Associated i s" and ?A' = "Associated i (other s)"
  let ?B = "Associated j s" and ?B' = "Associated j (other s)"
  let ?E = "executor ?m"
  have pe: "peer ?A = ?A'" "closed_with ?A ?m = [?A]" "closed_with ?A' ?m = [?A']"
    "master_of ?A' = Master (other s)"
    by (simp_all add: closed_with_def)
  have a1: "\<forall>x\<in>set [?A] \<union> set [?A']. phase ?m x = Open" using assms(2,3) by simp
  have a2: "distinct [?A]" "distinct [?A']" "inj_on ?E (set [?A])" "inj_on ?E (set [?A'])"
    by simp_all
  have a3: "?E (Master (other s)) \<notin> ?E ` set [?A]" using assms(8) by simp
  have a4: "quiet_on (?E (Master (other s)) # map ?E [?A] @ map ?E [?A']) cur w"
    using assms(9) by (simp add: quiet_on_def)
  have a5: "\<forall>x\<in>set [?A] \<union> set [?A']. \<forall>c\<in>set (handler_quits ?m x). call_ok cur w c"
    using assms(10,11) by simp
  obtain w1 w2 w3 w4 where
      r: "perform cur (Close ?A) w = Inr w1"
      "run_each cur [?E ?A] w1 = Some (Inr w2)"
      "RunOneTask cur (?E (Master (other s))) w2 = Some (Inr w3)"
      "run_each cur [?E ?A'] w3 = Some (Inr w4)"
    and e4: "ext w4 = ?m\<lparr>phase := (\<lambda>y. if y \<in> set [?A] \<union> set [?A'] then Closed else phase ?m y),
                 pending := (\<lambda>y. if y \<in> set [?A] \<union> set [?A'] then [] else pending ?m y),
                 observed := observed ?m @ concat (map (handler_observations ?m) [?A])
                               @ concat (map (handler_observations ?m) [?A'])\<rparr>"
    and t4: "\<And>q. tasks (runners w4 q) = tasks (runners w q)"
    and i4: "\<And>q. thread_id (runners w4 q) = thread_id (runners w q)"
    and h4: "map (\<lambda>h. (fst h, fst (snd h))) (history w4) = map (\<lambda>h. (fst h, fst (snd h))) (history w)
          @ map (\<lambda>x. (?E x, error_task x)) [?A]
          @ [(?E (Master (other s)), peer_closed_arrives ?A')]
          @ map (\<lambda>x. (?E x, error_task x)) [?A']"
    by (rule teardown[of ?A w cur, unfolded pe, OF a1 a2 a3 a4 a5]) (simp only: list.map)
  have ex: "executor (ext w4) = ?E" by (simp add: e4)
  have ph: "phase (ext w4) ?B = Open" "phase (ext w4) ?B' = Open"
      "phase (ext w4) (Master s) = Open" "phase (ext w4) (Master (other s)) = Open"
      "phase (ext w4) ?A = Closed" "phase (ext w4) ?A' = Closed"
    using assms(1,4-7) by (simp_all add: e4)
  have q4: "quiet_on [executor (ext w4) (Master (other s)), executor (ext w4) ?B',
                   executor (ext w4) (Master s), executor (ext w4) ?B] cur w4"
    using assms(9) by (simp add: quiet_on_def ex t4 i4)
  have f4: "next_id (ext w4) ?B \<notin> fst ` set (pending (ext w4) ?B)"
    using assms(1,13) by (simp add: e4)
  have c4: "\<forall>q\<in>set (quits (c v)). call_ok cur w4 q"
    using assms(14) call_ok_thread[of w4 w cur] i4 by simp
  obtain u1 u2 u3 u4 u5 where
      u: "Call impl ?B v (Some c) w4 = Inr u1"
      "RunOneTask cur (executor (ext w4) (Master (other s))) u1 = Some (Inr u2)"
      "RunOneTask cur (executor (ext w4) ?B') u2 = Some (Inr u3)"
      "RunOneTask cur (executor (ext w4) (Master s)) u3 = Some (Inr u4)"
      "RunOneTask cur (executor (ext w4) ?B) u4 = Some (Inr u5)"
    and e5: "ext u5 = (ext w4)\<lparr>next_id := (next_id (ext w4))(?B := Suc (next_id (ext w4) ?B)),
                 observed := observed (ext w4) @ [EchoCalled v] @ observations (c v)\<rparr>"
    by (rule round_trip[of w4 j s cur impl v "[EchoCalled v]" c,
          OF ph(1,2,3,4) q4 Echo_test_handler[OF assms(12)] f4 c4]) blast
  have o4: "observed (ext w4) = observed ?m @ handler_observations ?m ?A
              @ handler_observations ?m ?A'"
    by (simp add: e4)
  have o5: "observed (ext u5) = observed (ext w4) @ [EchoCalled v] @ observations (c v)"
    and p5: "phase (ext u5) (Master s) = Open" "phase (ext u5) (Master (other s)) = Open"
    using ph by (simp_all add: e5)
  have h4': "map (\<lambda>h. (fst h, fst (snd h))) (history w4) = map (\<lambda>h. (fst h, fst (snd h))) (history w)
         @ [(?E ?A, error_task ?A), (?E (Master (other s)), peer_closed_arrives ?A'),
            (?E ?A', error_task ?A')]"
    using h4 by simp
  have t4': "\<forall>q. tasks (runners w4 q) = tasks (runners w q)" using t4 by simp
  note r' = r[unfolded run_each_single] and u' = u[unfolded ex]
  show ?thesis
    apply (rule exI[of _ w1], rule exI[of _ w2], rule exI[of _ w3], rule exI[of _ w4])
    apply (rule exI[of _ u1], rule exI[of _ u2], rule exI[of _ u3], rule exI[of _ u4],
        rule exI[of _ u5])
    apply (intro conjI)
    apply (fact r' u' o4 o5 p5 ph h4' t4')+
    done
qed

theorem C8_witness:
  "(0::nat) \<noteq> 1
   \<and> phase (ext SetUp_with_handlers) (Associated 0 PtrSide) = Open
   \<and> phase (ext SetUp_with_handlers) (Associated 0 ImplSide) = Open
   \<and> phase (ext SetUp_with_handlers) (Associated 1 PtrSide) = Open
   \<and> phase (ext SetUp_with_handlers) (Associated 1 ImplSide) = Open
   \<and> phase (ext SetUp_with_handlers) (Master PtrSide) = Open
   \<and> phase (ext SetUp_with_handlers) (Master ImplSide) = Open
   \<and> connection_binding_task_runner \<noteq> sender_ptr_task_runner
   \<and> quiet_on [connection_binding_task_runner, sender_ptr_task_runner,
                sender_binding_task_runner, second_binding_task_runner,
                connection_ptr_task_runner, second_ptr_task_runner] 0 SetUp_with_handlers
   \<and> list_all (call_ok 0 SetUp_with_handlers)
        (handler_quits (ext SetUp_with_handlers) (Associated 0 PtrSide))
   \<and> list_all (call_ok 0 SetUp_with_handlers)
        (handler_quits (ext SetUp_with_handlers) (Associated 0 ImplSide))
   \<and> echo_handler (test_impl (Associated 1 ImplSide)) = Some test_echo_handler
   \<and> next_id (ext SetUp_with_handlers) (Associated 1 PtrSide)
        \<notin> fst ` set (pending (ext SetUp_with_handlers) (Associated 1 PtrSide))
   \<and> list_all (call_ok 0 SetUp_with_handlers) (quits (test_callback 7))
   \<and> map_option (map_sum id (\<lambda>w. (observed (ext w), phase (ext w) (Master PtrSide),
            phase (ext w) (Master ImplSide), phase (ext w) (Associated 0 PtrSide),
            phase (ext w) (Associated 0 ImplSide))))
        (then_do (then_do (then_do
           (Some (perform 0 (Close (Associated 0 PtrSide)) SetUp_with_handlers))
           (RunOneTask 0 sender_ptr_task_runner))
           (RunOneTask 0 connection_binding_task_runner))
           (RunOneTask 0 sender_binding_task_runner))
       = Some (Inr ([ConnectionError (Associated 0 PtrSide), ConnectionError (Associated 0 ImplSide)],
                    Open, Open, Closed, Closed))
   \<and> map_option (map_sum id (\<lambda>w. (observed (ext w), phase (ext w) (Master PtrSide),
            phase (ext w) (Master ImplSide))))
        (then_do (then_do (then_do (then_do (then_do (then_do (then_do (then_do
           (Some (perform 0 (Close (Associated 0 PtrSide)) SetUp_with_handlers))
           (RunOneTask 0 sender_ptr_task_runner))
           (RunOneTask 0 connection_binding_task_runner))
           (RunOneTask 0 sender_binding_task_runner))
           (\<lambda>w. Some (Call test_impl (Associated 1 PtrSide) 7 (Some test_callback) w)))
           (RunOneTask 0 connection_binding_task_runner))
           (RunOneTask 0 second_binding_task_runner))
           (RunOneTask 0 connection_ptr_task_runner))
           (RunOneTask 0 second_ptr_task_runner))
       = Some (Inr ([ConnectionError (Associated 0 PtrSide), ConnectionError (Associated 0 ImplSide),
                     EchoCalled 7, EchoReplied 7], Open, Open))"
proof -
  let ?W = SetUp_with_handlers
  have n: "connection_ptr_task_runner = 1" "connection_binding_task_runner = 0"
    "sender_ptr_task_runner = 3" "sender_binding_task_runner = 2"
    "second_ptr_task_runner = 5" "second_binding_task_runner = 4"
    by (simp_all add: connection_binding_task_runner_def
        sender_binding_task_runner_def connection_ptr_task_runner_def sender_ptr_task_runner_def
        second_binding_task_runner_def second_ptr_task_runner_def)
  have E: "executor (ext ?W) (Master PtrSide) = connection_ptr_task_runner"
    "executor (ext ?W) (Master (other PtrSide)) = connection_binding_task_runner"
    "executor (ext ?W) (Associated 0 PtrSide) = sender_ptr_task_runner"
    "executor (ext ?W) (Associated 0 (other PtrSide)) = sender_binding_task_runner"
    "executor (ext ?W) (Associated 1 PtrSide) = second_ptr_task_runner"
    "executor (ext ?W) (Associated 1 (other PtrSide)) = second_binding_task_runner"
    by (simp_all add: handlers_ext SetUp_ext SetUp_ext_Suc n)
  have g: "(0::nat) \<noteq> 1"
    "phase (ext ?W) (Associated 0 PtrSide) = Open"
    "phase (ext ?W) (Associated 0 ImplSide) = Open"
    "phase (ext ?W) (Associated 1 PtrSide) = Open"
    "phase (ext ?W) (Associated 1 ImplSide) = Open"
    "phase (ext ?W) (Master PtrSide) = Open"
    "phase (ext ?W) (Master ImplSide) = Open"
    "connection_binding_task_runner \<noteq> sender_ptr_task_runner"
    "quiet_on [connection_binding_task_runner, sender_ptr_task_runner,
                sender_binding_task_runner, second_binding_task_runner,
                connection_ptr_task_runner, second_ptr_task_runner] 0 ?W"
    "list_all (call_ok 0 ?W) (handler_quits (ext ?W) (Associated 0 PtrSide))"
    "list_all (call_ok 0 ?W) (handler_quits (ext ?W) (Associated 0 ImplSide))"
    "echo_handler (test_impl (Associated 1 ImplSide)) = Some test_echo_handler"
    "next_id (ext ?W) (Associated 1 PtrSide) \<notin> fst ` set (pending (ext ?W) (Associated 1 PtrSide))"
    "list_all (call_ok 0 ?W) (quits (test_callback 7))"
    by (simp_all add: n handlers_ext SetUp_ext SetUp_ext_Suc SetUp_runners quiet_on_def handlers_of handlers_of_Suc
        test_impl_def set_echo_handler_def test_callback_def)
  have o: "other PtrSide = ImplSide" by simp
  from C8_asymmetric_teardown[where w = ?W and i = 0 and j = 1 and s = PtrSide and cur = 0
        and impl = test_impl and v = 7 and c = test_callback, unfolded E, unfolded o,
        OF g[unfolded list_all_iff]]
  obtain w1 w2 w3 w4 u1 u2 u3 u4 u5 where
      "perform 0 (Close (Associated 0 PtrSide)) ?W = Inr w1"
      "RunOneTask 0 sender_ptr_task_runner w1 = Some (Inr w2)"
      "RunOneTask 0 connection_binding_task_runner w2 = Some (Inr w3)"
      "RunOneTask 0 sender_binding_task_runner w3 = Some (Inr w4)"
      "observed (ext w4) = observed (ext ?W)
         @ handler_observations (ext ?W) (Associated 0 PtrSide)
         @ handler_observations (ext ?W) (Associated 0 ImplSide)"
      "phase (ext w4) (Associated 0 PtrSide) = Closed"
      "phase (ext w4) (Associated 0 ImplSide) = Closed"
      "phase (ext w4) (Master PtrSide) = Open" "phase (ext w4) (Master ImplSide) = Open"
      "Call test_impl (Associated 1 PtrSide) 7 (Some test_callback) w4 = Inr u1"
      "RunOneTask 0 connection_binding_task_runner u1 = Some (Inr u2)"
      "RunOneTask 0 second_binding_task_runner u2 = Some (Inr u3)"
      "RunOneTask 0 connection_ptr_task_runner u3 = Some (Inr u4)"
      "RunOneTask 0 second_ptr_task_runner u4 = Some (Inr u5)"
      "observed (ext u5) = observed (ext w4) @ [EchoCalled 7] @ observations (test_callback 7)"
      "phase (ext u5) (Master PtrSide) = Open" "phase (ext u5) (Master ImplSide) = Open"
    by blast
  then have r: "map_option (map_sum id (\<lambda>w. (observed (ext w), phase (ext w) (Master PtrSide),
            phase (ext w) (Master ImplSide), phase (ext w) (Associated 0 PtrSide),
            phase (ext w) (Associated 0 ImplSide))))
        (then_do (then_do (then_do
           (Some (perform 0 (Close (Associated 0 PtrSide)) ?W))
           (RunOneTask 0 sender_ptr_task_runner))
           (RunOneTask 0 connection_binding_task_runner))
           (RunOneTask 0 sender_binding_task_runner))
       = Some (Inr ([ConnectionError (Associated 0 PtrSide), ConnectionError (Associated 0 ImplSide)],
                    Open, Open, Closed, Closed))"
   "map_option (map_sum id (\<lambda>w. (observed (ext w), phase (ext w) (Master PtrSide),
            phase (ext w) (Master ImplSide))))
        (then_do (then_do (then_do (then_do (then_do (then_do (then_do (then_do
           (Some (perform 0 (Close (Associated 0 PtrSide)) ?W))
           (RunOneTask 0 sender_ptr_task_runner))
           (RunOneTask 0 connection_binding_task_runner))
           (RunOneTask 0 sender_binding_task_runner))
           (\<lambda>w. Some (Call test_impl (Associated 1 PtrSide) 7 (Some test_callback) w)))
           (RunOneTask 0 connection_binding_task_runner))
           (RunOneTask 0 second_binding_task_runner))
           (RunOneTask 0 connection_ptr_task_runner))
           (RunOneTask 0 second_ptr_task_runner))
       = Some (Inr ([ConnectionError (Associated 0 PtrSide), ConnectionError (Associated 0 ImplSide),
                     EchoCalled 7, EchoReplied 7], Open, Open))"
    by (simp_all add: handlers_ext SetUp_ext SetUp_ext_Suc handlers_of handlers_of_Suc test_callback_def)
  show ?thesis
    by (intro conjI) (fact g r)+
qed

section \<open>The tests of the source, run in the model\<close>

text \<open>
  Each test body of the source, with the runners drained in the order and by the method
  (\<^verbatim>\<open>Run()\<close> until a handler quits) that the test uses, and the flags checked by its
  \<^verbatim>\<open>EXPECT_TRUE\<close> after each step. \<^verbatim>\<open>MethodCall\<close> of \<^verbatim>\<open>AssociatedBindTaskRunnerTest\<close>,
  which uses \<^verbatim>\<open>RunOneTask()\<close>, is the example of the two hops above.
\<close>

lemmas test_defs =
  flags_set_def BindTaskRunnerTest_SetUp_def binding_task_runner_def ptr_task_runner_def
  SetUp_def CreateAssociated_def with_error_handlers_def SetConnectionErrorHandler_def
  test_error_handler_def
  connection_binding_task_runner_def connection_ptr_task_runner_def
  sender_binding_task_runner_def sender_ptr_task_runner_def
  second_binding_task_runner_def second_ptr_task_runner_def
  fresh_world_def connected_def TestTaskRunner_def Call_def Let_def PostDelayedTask_def
  upd_runner_def Run_def DCHECK_def RunsTasksOnCurrentThread_def Run_loop.simps
  run_task_def request_arrives_def request_delivery_def Echo_def quitting_impl_def
  set_echo_handler_def IntegerSenderImpl_def quitting_echo_handler_def send_reply_def
  reply_arrives_def reply_delivery_def react_def quitting_callback_def Quit_def
  perform_def Close_def closed_with_def close_one_def peer_closed_arrives_def error_task_def

lemma BindTaskRunnerTest_MethodCall:
  "map_option (map_sum id flags_set)
     (then_do (Some (Call quitting_impl (Master PtrSide) 1024 (Some quitting_callback)
                       BindTaskRunnerTest_SetUp))
        (Run 0 binding_task_runner)) = Some (Inr [EchoCalled 1024])"
  "map_option (map_sum id flags_set)
     (then_do (then_do (Some (Call quitting_impl (Master PtrSide) 1024 (Some quitting_callback)
                       BindTaskRunnerTest_SetUp))
        (Run 0 binding_task_runner)) (Run 0 ptr_task_runner))
     = Some (Inr [EchoCalled 1024, EchoReplied 1024])"
  by (simp_all add: test_defs)

lemma BindTaskRunnerTest_BindingConnectionError:
  "map_option (map_sum id flags_set)
     (then_do (Some (perform 0 (Close (Master PtrSide))
                 (with_error_handlers [(Master ImplSide, binding_task_runner)]
                    BindTaskRunnerTest_SetUp)))
        (Run 0 binding_task_runner)) = Some (Inr [ConnectionError (Master ImplSide)])"
  by (simp add: test_defs)

lemma BindTaskRunnerTest_PtrConnectionError:
  "map_option (map_sum id flags_set)
     (then_do (Some (perform 0 (Close (Master ImplSide))
                 (with_error_handlers [(Master PtrSide, ptr_task_runner)]
                    BindTaskRunnerTest_SetUp)))
        (Run 0 ptr_task_runner)) = Some (Inr [ConnectionError (Master PtrSide)])"
  by (simp add: test_defs)

lemma AssociatedBindTaskRunnerTest_BindingConnectionError:
  "map_option (map_sum id flags_set)
     (then_do (Some (perform 0 (Close (Master PtrSide))
                 (with_error_handlers
                    [(Associated 0 ImplSide, sender_binding_task_runner),
                     (Master ImplSide, connection_binding_task_runner),
                     (Associated 0 PtrSide, sender_ptr_task_runner)] SetUp)))
        (Run 0 sender_ptr_task_runner)) = Some (Inr [ConnectionError (Associated 0 PtrSide)])"
  "map_option (map_sum id flags_set)
     (then_do (then_do (Some (perform 0 (Close (Master PtrSide))
                 (with_error_handlers
                    [(Associated 0 ImplSide, sender_binding_task_runner),
                     (Master ImplSide, connection_binding_task_runner),
                     (Associated 0 PtrSide, sender_ptr_task_runner)] SetUp)))
        (Run 0 sender_ptr_task_runner)) (Run 0 connection_binding_task_runner))
     = Some (Inr [ConnectionError (Associated 0 PtrSide), ConnectionError (Master ImplSide)])"
  "map_option (map_sum id flags_set)
     (then_do (then_do (then_do (Some (perform 0 (Close (Master PtrSide))
                 (with_error_handlers
                    [(Associated 0 ImplSide, sender_binding_task_runner),
                     (Master ImplSide, connection_binding_task_runner),
                     (Associated 0 PtrSide, sender_ptr_task_runner)] SetUp)))
        (Run 0 sender_ptr_task_runner)) (Run 0 connection_binding_task_runner))
        (Run 0 sender_binding_task_runner))
     = Some (Inr [ConnectionError (Associated 0 PtrSide), ConnectionError (Master ImplSide),
                  ConnectionError (Associated 0 ImplSide)])"
  by (simp_all add: test_defs)

lemma AssociatedBindTaskRunnerTest_PtrConnectionError:
  "map_option (map_sum id flags_set)
     (then_do (then_do (then_do (Some (perform 0 (Close (Master ImplSide))
                 (with_error_handlers
                    [(Associated 0 ImplSide, sender_binding_task_runner),
                     (Master PtrSide, connection_ptr_task_runner),
                     (Associated 0 PtrSide, sender_ptr_task_runner)] SetUp)))
        (Run 0 sender_binding_task_runner)) (Run 0 connection_ptr_task_runner))
        (Run 0 sender_ptr_task_runner))
     = Some (Inr [ConnectionError (Associated 0 ImplSide), ConnectionError (Master PtrSide),
                  ConnectionError (Associated 0 PtrSide)])"
  by (simp add: test_defs)

end
